theory Spec2Isabelle
  imports Main
begin

section \<open>Values of tools/tdd.js\<close>

text \<open>
  The development server of tools/tdd.js is driven by callbacks: compiler hooks, the
  watch callback, the request middleware, promise reactions and the kill signal. Each
  callback runs to completion (one turn of the event loop, with the promise reactions
  it schedules), so the model is a state record and one function per callback.
  Timestamps (\<open>new Date()\<close>) are read from the notification that starts the turn.
\<close>

type_synonym timestamp = int
type_synonym request = nat
type_synonym moduleId = string
type_synonym module_ref = nat

datatype error = Error string | TypeError string

datatype 'a promise = Pending | Fulfilled 'a | Rejected error

text \<open>The two functions handed to a promise executor: only the first call settles.\<close>

fun resolve :: "'a \<Rightarrow> 'a promise \<Rightarrow> 'a promise" where
  "resolve v Pending = Fulfilled v"
| "resolve v p = p"

fun reject :: "error \<Rightarrow> 'a promise \<Rightarrow> 'a promise" where
  "reject e Pending = Rejected e"
| "reject e p = p"

record stats =
  hasErrors :: bool
  report :: string

text \<open>
  Console output. A template string with holes is an entry with the holes as fields
  (\<open>format\<close> of build-strap and the number rendering are not part of this file);
  the HMR lines are literal text behind \<open>hmrPrefix\<close>.
\<close>

datatype log_entry =
    CompilingInfo string timestamp
  | StatsInfo stats
  | FailedInfo string timestamp int
  | FinishedInfo string timestamp int
  | LaunchingInfo timestamp
  | LaunchedInfo timestamp int
  | Info string
  | Warn string
  | ConsoleError error
  | BuildLog string
  | BuildLogException error

definition hmrPrefix :: string where
  "hmrPrefix = ''['' @ [CHR 0x1B] @ ''[35mHMR'' @ [CHR 0x1B] @ ''[0m] ''"

fun message :: "error \<Rightarrow> string" where
  "message (Error m) = m"
| "message (TypeError m) = m"

section \<open>createCompilationPromise\<close>

text \<open>
  The closure of one call: the variable \<open>timeStart\<close> and the promise the call returns.
  Each tap returns the closure and the lines it prints.
\<close>

record tracker =
  timeStart :: timestamp
  outcome :: "stats promise"

definition createCompilationPromise :: "timestamp \<Rightarrow> tracker" where
  "createCompilationPromise now = \<lparr>timeStart = now, outcome = Pending\<rparr>"

definition compile_tap :: "string \<Rightarrow> timestamp \<Rightarrow> tracker \<Rightarrow> tracker \<times> log_entry list" where
  "compile_tap name now c = (c\<lparr>timeStart := now\<rparr>, [CompilingInfo name now])"

definition done_tap :: "string \<Rightarrow> timestamp \<Rightarrow> stats \<Rightarrow> tracker \<Rightarrow> tracker \<times> log_entry list" where
  "done_tap name timeEnd st c =
     (let time = timeEnd - timeStart c in
      if hasErrors st
      then (c\<lparr>outcome := reject (Error ''Compilation failed!'') (outcome c)\<rparr>,
            [StatsInfo st, FailedInfo name timeEnd time])
      else (c\<lparr>outcome := resolve st (outcome c)\<rparr>,
            [StatsInfo st, FinishedInfo name timeEnd time]))"

datatype notification = CompileStart timestamp | CompileDone timestamp stats

fun notify :: "string \<Rightarrow> notification \<Rightarrow> tracker \<times> log_entry list \<Rightarrow> tracker \<times> log_entry list" where
  "notify name (CompileStart now) (c, out) =
     (case compile_tap name now c of (c', ls) \<Rightarrow> (c', out @ ls))"
| "notify name (CompileDone now st) (c, out) =
     (case done_tap name now st c of (c', ls) \<Rightarrow> (c', out @ ls))"

fun notifications :: "string \<Rightarrow> notification list \<Rightarrow> tracker \<times> log_entry list \<Rightarrow> tracker \<times> log_entry list" where
  "notifications name [] x = x"
| "notifications name (n # ns) x = notifications name ns (notify name n x)"

text \<open>The first terminal outcome of a sequence of notifications, if there is one.\<close>

fun first_done :: "notification list \<Rightarrow> stats option" where
  "first_done [] = None"
| "first_done (CompileStart now # ns) = first_done ns"
| "first_done (CompileDone now st # ns) = Some st"

fun is_start :: "notification \<Rightarrow> bool" where
  "is_start (CompileStart now) = True"
| "is_start (CompileDone now st) = False"

section \<open>The state of start\<close>

datatype phase = AwaitClient | AwaitServer | AwaitBrowserSync | Launched | Caught

text \<open>
  A call of \<open>app.hot.check(true)\<close> whose promise has not settled: the argument of the
  \<open>checkForUpdate\<close> call that made it, the module instance it was called on, and
  whether the watch callback chained its \<open>then\<close> on the promise that call returned.
\<close>

record pending_check =
  fromUpdate :: bool
  onInstance :: module_ref
  thenRelease :: bool

text \<open>
  \<open>gates\<close> is the store of the promises created for \<open>appPromise\<close> (a promise is its
  index, the entry says whether it is resolved); \<open>instances\<close> is the store of the loaded
  instances of build/server (the entry is the status of the instance's hot interface,
  \<open>None\<close> when its export has none); \<open>cache\<close> is the entry of build/server in
  \<open>require.cache\<close>; \<open>bundleHot\<close> says whether the build output exports a hot interface.
  \<open>waiting\<close> holds the reactions \<open>appPromise.then(() => app.handle(req, res))\<close> that
  have not run, \<open>handled\<close> the calls of \<open>app.handle\<close> with the instance that took them,
  \<open>checks\<close> the pending checks. \<open>hotChecks\<close>, \<open>releaseCalls\<close>, \<open>teardowns\<close> and
  \<open>outerResolves\<close> count the calls of \<open>app.hot.check\<close>, \<open>appPromiseResolve\<close>,
  \<open>dockerTeardown\<close> and \<open>outerResolve\<close>; \<open>uncaught\<close> collects what a callback
  throws to its caller and the rejections nobody handles.
\<close>

record tdd =
  clientC :: tracker
  serverC :: tracker
  appPromise :: "nat option"
  appPromiseResolve :: "nat option"
  appPromiseIsResolved :: bool
  gates :: "bool list"
  app :: "module_ref option"
  cache :: "module_ref option"
  instances :: "string option list"
  bundleHot :: bool
  waiting :: "(nat \<times> request) list"
  handled :: "(request \<times> module_ref) list"
  checks :: "pending_check list"
  hotChecks :: nat
  releaseCalls :: nat
  phase :: phase
  launchStart :: timestamp
  cleaning :: "unit promise option"
  teardowns :: nat
  outerResolves :: nat
  console :: "log_entry list"
  uncaught :: "error list"

definition init :: "timestamp \<Rightarrow> bool \<Rightarrow> tdd" where
  "init now hot =
     \<lparr>clientC = createCompilationPromise now, serverC = createCompilationPromise now,
      appPromise = None, appPromiseResolve = None, appPromiseIsResolved = True,
      gates = [], app = None, cache = None, instances = [], bundleHot = hot,
      waiting = [], handled = [], checks = [], hotChecks = 0, releaseCalls = 0,
      phase = AwaitClient, launchStart = 0, cleaning = None, teardowns = 0,
      outerResolves = 0, console = [], uncaught = []\<rparr>"

definition say :: "log_entry list \<Rightarrow> tdd \<Rightarrow> tdd" where
  "say ls s = s\<lparr>console := console s @ ls\<rparr>"

definition throw :: "error \<Rightarrow> tdd \<Rightarrow> tdd" where
  "throw e s = s\<lparr>uncaught := uncaught s @ [e]\<rparr>"

section \<open>cleanupAndExit\<close>

text \<open>
  The first call runs the async body up to \<open>await dockerTeardown()\<close> and stores its
  promise; every call returns \<open>cleaning\<close> (the promise of the async function follows
  it), which is read from the state the call returns. The rest of the body runs when
  the promise of \<open>dockerTeardown\<close> settles: \<open>None\<close> says that it fulfilled.
\<close>

definition cleanupAndExit :: "tdd \<Rightarrow> tdd" where
  "cleanupAndExit s =
     (if cleaning s = None
      then (say [BuildLog ''Process exiting... cleaning up...''] s)
             \<lparr>teardowns := Suc (teardowns s), cleaning := Some Pending\<rparr>
      else s)"

definition teardown_settled :: "error option \<Rightarrow> tdd \<Rightarrow> tdd" where
  "teardown_settled r s =
     (case cleaning s of
        Some Pending \<Rightarrow>
          (case r of
             None \<Rightarrow> (say [BuildLog ''Cleanup finished.''] s)
                       \<lparr>outerResolves := Suc (outerResolves s), cleaning := Some (Fulfilled ())\<rparr>
           | Some e \<Rightarrow> (throw e s)\<lparr>cleaning := Some (Rejected e)\<rparr>)
      | _ \<Rightarrow> s)"

text \<open>The catch clause of start.\<close>

definition catch_start :: "error \<Rightarrow> tdd \<Rightarrow> tdd" where
  "catch_start err s =
     (cleanupAndExit (say [BuildLogException err, ConsoleError err] s))\<lparr>phase := Caught\<rparr>"

section \<open>The request gate\<close>

definition gate_resolved :: "tdd \<Rightarrow> nat \<Rightarrow> bool" where
  "gate_resolved s g = (g < length (gates s) \<and> gates s ! g)"

text \<open>The tap on the server compiler's compile hook.\<close>

definition gate_compile :: "tdd \<Rightarrow> tdd" where
  "gate_compile s =
     (if \<not> appPromiseIsResolved s then s
      else s\<lparr>appPromiseIsResolved := False,
             appPromise := Some (length (gates s)),
             appPromiseResolve := Some (length (gates s)),
             gates := gates s @ [False]\<rparr>)"

text \<open>\<open>app.handle(req, res)\<close> in the reaction, with its \<open>catch\<close>.\<close>

definition handle :: "request \<Rightarrow> tdd \<Rightarrow> tdd" where
  "handle req s =
     (case app s of
        None \<Rightarrow> say [ConsoleError (TypeError ''Cannot read property handle of undefined'')] s
      | Some a \<Rightarrow> s\<lparr>handled := handled s @ [(req, a)]\<rparr>)"

fun handle_all :: "request list \<Rightarrow> tdd \<Rightarrow> tdd" where
  "handle_all [] s = s"
| "handle_all (r # rs) s = handle_all rs (handle r s)"

text \<open>The request middleware.\<close>

definition middleware :: "request \<Rightarrow> tdd \<Rightarrow> tdd" where
  "middleware req s =
     (case appPromise s of
        None \<Rightarrow> throw (TypeError ''Cannot read property then of undefined'') s
      | Some g \<Rightarrow>
          if gate_resolved s g then handle req s
          else s\<lparr>waiting := waiting s @ [(g, req)]\<rparr>)"

text \<open>
  Resolving a gate promise: nothing when it is resolved already, else its reactions run
  in the order they were added.
\<close>

definition resolve_gate :: "nat \<Rightarrow> tdd \<Rightarrow> tdd" where
  "resolve_gate g s =
     (if gate_resolved s g then s
      else handle_all (map snd (filter (\<lambda>w. fst w = g) (waiting s)))
             (s\<lparr>gates := (gates s)[g := True],
                waiting := filter (\<lambda>w. fst w \<noteq> g) (waiting s)\<rparr>))"

text \<open>
  The two statements \<open>appPromiseIsResolved = true; appPromiseResolve();\<close> as they stand
  in start and in the watch callback. The call throws while no gate was ever created.
\<close>

definition release :: "tdd \<Rightarrow> error option \<times> tdd" where
  "release s =
     (let s1 = s\<lparr>appPromiseIsResolved := True\<rparr> in
      case appPromiseResolve s1 of
        None \<Rightarrow> (Some (TypeError ''appPromiseResolve is not a function''), s1)
      | Some g \<Rightarrow> (None, resolve_gate g (s1\<lparr>releaseCalls := Suc (releaseCalls s1)\<rparr>)))"

section \<open>Loading the server module\<close>

definition hot_of :: "tdd \<Rightarrow> module_ref \<Rightarrow> string option" where
  "hot_of s a = (if a < length (instances s) then instances s ! a else None)"

text \<open>
  \<open>require('../build/server').default\<close>: the cached instance when the cache has one,
  else a new instance of the build output, which the cache then holds. The hot interface
  of a new instance starts idle.
\<close>

definition require_server :: "tdd \<Rightarrow> module_ref \<times> tdd" where
  "require_server s =
     (case cache s of
        Some a \<Rightarrow> (a, s)
      | None \<Rightarrow>
          (length (instances s),
           s\<lparr>instances := instances s @ [if bundleHot s then Some ''idle'' else None],
             cache := Some (length (instances s))\<rparr>))"

section \<open>checkForUpdate\<close>

text \<open>
  What a call returns: a promise that is resolved already (\<open>Promise.resolve()\<close>), or
  the chain on the call of \<open>app.hot.check(true)\<close> that was appended to \<open>checks\<close> at
  the given position. \<open>Inl\<close> is the exception of a call that throws. The hot interface
  moves from idle to check when \<open>check\<close> is called.
\<close>

datatype returned = Resolved | Chained nat

definition checkForUpdate :: "bool \<Rightarrow> tdd \<Rightarrow> error + (returned \<times> tdd)" where
  "checkForUpdate fromUpd s =
     (case app s of
        None \<Rightarrow> Inl (TypeError ''Cannot read property hot of undefined'')
      | Some a \<Rightarrow>
          (case hot_of s a of
             None \<Rightarrow> Inl (Error (hmrPrefix @ ''Hot Module Replacement is disabled.''))
           | Some status \<Rightarrow>
               if status \<noteq> ''idle'' then Inr (Resolved, s)
               else Inr (Chained (length (checks s)),
                         s\<lparr>instances := (instances s)[a := Some ''check''],
                           hotChecks := Suc (hotChecks s),
                           checks := checks s @
                             [\<lparr>fromUpdate = fromUpd, onInstance = a, thenRelease = False\<rparr>]\<rparr>)))"

text \<open>
  The \<open>then\<close> handler of the chain. The promise of the nested call is dropped, an
  exception of the nested call is the handler's.
\<close>

definition then_handler :: "bool \<Rightarrow> moduleId list option \<Rightarrow> tdd \<Rightarrow> error option \<times> tdd" where
  "then_handler fromUpd updatedModules s =
     (case updatedModules of
        None \<Rightarrow> (None, if fromUpd then say [Info (hmrPrefix @ ''Update applied.'')] s else s)
      | Some ms \<Rightarrow>
          if length ms = 0 then (None, say [Info (hmrPrefix @ ''Nothing hot updated.'')] s)
          else
            (let s1 = say (Info (hmrPrefix @ ''Updated modules:'') #
                           map (\<lambda>moduleId. Info (hmrPrefix @ '' - '' @ moduleId)) ms) s
             in case checkForUpdate True s1 of
                  Inl e \<Rightarrow> (Some e, s1)
                | Inr (r, s2) \<Rightarrow> (None, s2)))"

text \<open>
  The \<open>catch\<close> handler of the chain; \<open>error.stack || error.message\<close> is the message.
  Reading the status throws when \<open>app\<close> has no hot interface.
\<close>

definition catch_handler :: "error \<Rightarrow> tdd \<Rightarrow> error option \<times> tdd" where
  "catch_handler err s =
     (case app s of
        None \<Rightarrow> (Some (TypeError ''Cannot read property hot of undefined''), s)
      | Some a \<Rightarrow>
          (case hot_of s a of
             None \<Rightarrow> (Some (TypeError ''Cannot read property status of undefined''), s)
           | Some status \<Rightarrow>
               if status \<in> set [''abort'', ''fail'']
               then (let s1 = say [Warn (hmrPrefix @ ''Cannot apply update.'')] s;
                         s2 = s1\<lparr>cache := None\<rparr>;
                         (a', s3) = require_server s2;
                         s4 = s3\<lparr>app := Some a'\<rparr>
                     in (None, say [Warn (hmrPrefix @ ''App has been reloaded.'')] s4))
               else (None, say [Warn (hmrPrefix @ ''Update failed: '' @ message err)] s)))"

text \<open>The reaction of the watch callback: the two statements of the release.\<close>

definition release_reaction :: "tdd \<Rightarrow> tdd" where
  "release_reaction s = (case release s of (None, s1) \<Rightarrow> s1 | (Some e, s1) \<Rightarrow> throw e s1)"

definition then_release :: "nat \<Rightarrow> tdd \<Rightarrow> tdd" where
  "then_release k s =
     (if k < length (checks s)
      then s\<lparr>checks := (checks s)[k := (checks s ! k)\<lparr>thenRelease := True\<rparr>]\<rparr>
      else s)"

text \<open>
  The promise of the oldest pending \<open>check\<close> settles, the hot interface having the
  given status by then: the \<open>then\<close> handler or the rejection, the \<open>catch\<close> handler when
  there is an error, and the reaction of the watch callback when the chain fulfils and
  the callback chained one. A chain that rejects has no handler.
\<close>

datatype check_outcome = Updated "moduleId list option" | CheckFailed error

definition check_settled :: "check_outcome \<Rightarrow> string \<Rightarrow> tdd \<Rightarrow> tdd" where
  "check_settled out status s =
     (case checks s of
        [] \<Rightarrow> s
      | c # cs \<Rightarrow>
          (let s0 = s\<lparr>checks := cs, instances := (instances s)[onInstance c := Some status]\<rparr>;
               r1 = (case out of
                       Updated updatedModules \<Rightarrow> then_handler (fromUpdate c) updatedModules s0
                     | CheckFailed e \<Rightarrow> (Some e, s0));
               r2 = (case r1 of
                       (None, s1) \<Rightarrow> (None, s1)
                     | (Some e, s1) \<Rightarrow> catch_handler e s1)
           in case r2 of
                (Some e, s2) \<Rightarrow> throw e s2
              | (None, s2) \<Rightarrow> if thenRelease c then release_reaction s2 else s2))"

text \<open>The callback given to \<open>serverCompiler.watch\<close>.\<close>

definition watch_callback :: "error option \<Rightarrow> stats option \<Rightarrow> tdd \<Rightarrow> tdd" where
  "watch_callback err sts s =
     (if app s \<noteq> None \<and> err = None
      then (case sts of
              None \<Rightarrow> throw (TypeError ''Cannot read property hasErrors of undefined'') s
            | Some st \<Rightarrow>
                if hasErrors st then s
                else (case checkForUpdate False s of
                        Inl e \<Rightarrow> throw e s
                      | Inr (Resolved, s1) \<Rightarrow> release_reaction s1
                      | Inr (Chained k, s1) \<Rightarrow> then_release k s1))
      else s)"

section \<open>The rest of start\<close>

text \<open>
  From \<open>Launching server...\<close> to the call of \<open>browserSync.create().init\<close>; an
  exception goes to the catch clause.
\<close>

definition launch :: "timestamp \<Rightarrow> tdd \<Rightarrow> tdd" where
  "launch now s =
     (let s1 = say [LaunchingInfo now] (s\<lparr>launchStart := now\<rparr>);
          (a, s2) = require_server s1;
          s3 = s2\<lparr>app := Some a\<rparr>
      in case release s3 of
           (Some e, s4) \<Rightarrow> catch_start e s4
         | (None, s4) \<Rightarrow> s4\<lparr>phase := AwaitBrowserSync\<rparr>)"

definition await_server :: "timestamp \<Rightarrow> tdd \<Rightarrow> tdd" where
  "await_server now s =
     (case outcome (serverC s) of
        Pending \<Rightarrow> s
      | Fulfilled st \<Rightarrow> launch now s
      | Rejected e \<Rightarrow> catch_start e s)"

text \<open>start resumes where it awaits, when the promise it awaits has settled.\<close>

definition resume :: "timestamp \<Rightarrow> tdd \<Rightarrow> tdd" where
  "resume now s =
     (case phase s of
        AwaitClient \<Rightarrow>
          (case outcome (clientC s) of
             Pending \<Rightarrow> s
           | Fulfilled st \<Rightarrow> await_server now (s\<lparr>phase := AwaitServer\<rparr>)
           | Rejected e \<Rightarrow> catch_start e s)
      | AwaitServer \<Rightarrow> await_server now s
      | _ \<Rightarrow> s)"

definition browserSync_init :: "timestamp \<Rightarrow> error option \<Rightarrow> tdd \<Rightarrow> tdd" where
  "browserSync_init timeEnd err s =
     (if phase s = AwaitBrowserSync
      then (case err of
              None \<Rightarrow> (say [LaunchedInfo timeEnd (timeEnd - launchStart s)] s)\<lparr>phase := Launched\<rparr>
            | Some e \<Rightarrow> catch_start e s)
      else s)"

section \<open>Turns of the event loop\<close>

text \<open>
  What the environment does: the compile and done hooks of the two compilers (the done
  hook of the server compiler is followed by the watch callback in the same turn), a
  watch callback with an error, a request, the settling of a \<open>check\<close>, the callback of
  Browsersync, a kill signal, the settling of \<open>dockerTeardown\<close>.
\<close>

datatype event =
    ClientCompile timestamp
  | ClientDone timestamp stats
  | ServerCompile timestamp
  | ServerDone timestamp stats
  | ServerWatchError error
  | Request request
  | HotCheckSettled check_outcome string
  | BrowserSyncInit timestamp "error option"
  | KillSignal
  | TeardownSettled "error option"

definition client_tap :: "tracker \<times> log_entry list \<Rightarrow> tdd \<Rightarrow> tdd" where
  "client_tap x s = say (snd x) (s\<lparr>clientC := fst x\<rparr>)"

definition server_tap :: "tracker \<times> log_entry list \<Rightarrow> tdd \<Rightarrow> tdd" where
  "server_tap x s = say (snd x) (s\<lparr>serverC := fst x\<rparr>)"

fun step :: "event \<Rightarrow> tdd \<Rightarrow> tdd" where
  "step (ClientCompile now) s = client_tap (compile_tap ''client'' now (clientC s)) s"
| "step (ClientDone now st) s = resume now (client_tap (done_tap ''client'' now st (clientC s)) s)"
| "step (ServerCompile now) s = gate_compile (server_tap (compile_tap ''server'' now (serverC s)) s)"
| "step (ServerDone now st) s =
     resume now (watch_callback None (Some st) (server_tap (done_tap ''server'' now st (serverC s)) s))"
| "step (ServerWatchError e) s = watch_callback (Some e) None s"
| "step (Request req) s = middleware req s"
| "step (HotCheckSettled out status) s = check_settled out status s"
| "step (BrowserSyncInit now err) s = browserSync_init now err s"
| "step KillSignal s = cleanupAndExit s"
| "step (TeardownSettled r) s = teardown_settled r s"

fun run :: "event list \<Rightarrow> tdd \<Rightarrow> tdd" where
  "run [] s = s"
| "run (e # es) s = run es (step e s)"

section \<open>Invariants of the reachable states\<close>

text \<open>
  The parts of the state the invariants read. A callback that leaves a view alone keeps
  the invariant on it.
\<close>

definition gate_view :: "tdd \<Rightarrow> nat option \<times> nat option \<times> bool \<times> bool list \<times> (nat \<times> request) list" where
  "gate_view s = (appPromiseResolve s, appPromise s, appPromiseIsResolved s, gates s, waiting s)"

definition check_view :: "tdd \<Rightarrow> module_ref option \<times> module_ref option \<times> string option list \<times> pending_check list \<times> bool" where
  "check_view s = (cache s, app s, instances s, checks s, bundleHot s)"

definition start_view :: "tdd \<Rightarrow> phase \<times> tracker \<times> tracker" where
  "start_view s = (phase s, clientC s, serverC s)"

definition cleanup_view :: "tdd \<Rightarrow> unit promise option \<times> nat \<times> nat" where
  "cleanup_view s = (cleaning s, teardowns s, outerResolves s)"

text \<open>
  The gate: the variable \<open>appPromiseResolve\<close> belongs to the promise in \<open>appPromise\<close>;
  every promise made before the current one is resolved, the current one is resolved
  exactly when the flag says so; a reaction waits only on the current promise, and only
  while it is unresolved.
\<close>

definition gate_inv :: "tdd \<Rightarrow> bool" where
  "gate_inv s =
     (appPromiseResolve s = appPromise s \<and>
      (appPromiseIsResolved s \<longrightarrow> waiting s = []) \<and>
      (case appPromise s of
         None \<Rightarrow> gates s = [] \<and> appPromiseIsResolved s
       | Some g \<Rightarrow>
           gates s = replicate g True @ [appPromiseIsResolved s] \<and>
           list_all (\<lambda>w. fst w = g) (waiting s)))"

text \<open>
  The patch loop: the cache holds the instance in \<open>app\<close>; at most one \<open>check\<close> is
  pending, on the instance in \<open>app\<close>, whose hot interface then has the status check.
\<close>

definition check_inv :: "tdd \<Rightarrow> bool" where
  "check_inv s =
     (cache s = app s \<and>
      (case app s of
         None \<Rightarrow> checks s = []
       | Some a \<Rightarrow>
           a < length (instances s) \<and>
           (case checks s of
              [] \<Rightarrow> True
            | c # cs \<Rightarrow> cs = [] \<and> onInstance c = a \<and> instances s ! a = Some ''check'')))"

fun is_fulfilled :: "'a promise \<Rightarrow> bool" where
  "is_fulfilled (Fulfilled v) = True"
| "is_fulfilled p = False"

text \<open>
  start: where it waits, against the two compilation promises, the module and the
  cleanup.
\<close>

definition start_inv :: "tdd \<Rightarrow> bool" where
  "start_inv s =
     (case phase s of
        AwaitClient \<Rightarrow> outcome (clientC s) = Pending \<and> app s = None
      | AwaitServer \<Rightarrow>
          is_fulfilled (outcome (clientC s)) \<and> outcome (serverC s) = Pending \<and> app s = None
      | AwaitBrowserSync \<Rightarrow>
          is_fulfilled (outcome (clientC s)) \<and> is_fulfilled (outcome (serverC s)) \<and> app s \<noteq> None
      | Launched \<Rightarrow>
          is_fulfilled (outcome (clientC s)) \<and> is_fulfilled (outcome (serverC s)) \<and> app s \<noteq> None
      | Caught \<Rightarrow>
          cleaning s \<noteq> None \<and> outcome (clientC s) \<noteq> Pending \<and>
          (is_fulfilled (outcome (clientC s)) \<longrightarrow> outcome (serverC s) \<noteq> Pending) \<and>
          (app s \<noteq> None \<longrightarrow>
             is_fulfilled (outcome (clientC s)) \<and> is_fulfilled (outcome (serverC s))))"


section \<open>Notions of the claims\<close>

fun is_rejected :: "'a promise \<Rightarrow> bool" where
  "is_rejected (Rejected e) = True"
| "is_rejected p = False"

text \<open>
  A rebuild of the server bundle is outstanding from its compile-start to the next
  compile-done without errors.
\<close>

fun rebuild_outstanding :: "event list \<Rightarrow> bool \<Rightarrow> bool" where
  "rebuild_outstanding [] b = b"
| "rebuild_outstanding (ServerCompile now # es) b = rebuild_outstanding es True"
| "rebuild_outstanding (ServerDone now st # es) b =
     rebuild_outstanding es (if hasErrors st then b else False)"
| "rebuild_outstanding (e # es) b = rebuild_outstanding es b"

text \<open>
  The turns that can release the gate: the done hook that lets start go on to load the
  module, the watch callback of a rebuild without errors while the loaded module's hot
  interface is not idle, and the settling of a check the watch callback chained on.
\<close>

fun may_release :: "event \<Rightarrow> tdd \<Rightarrow> bool" where
  "may_release (ClientDone now st) s = (phase s = AwaitClient \<or> phase s = AwaitServer)"
| "may_release (ServerDone now st) s =
     (phase s = AwaitClient \<or> phase s = AwaitServer \<or>
      (\<not> hasErrors st \<and>
       (case app s of
          None \<Rightarrow> False
        | Some a \<Rightarrow> (case hot_of s a of None \<Rightarrow> False | Some status \<Rightarrow> status \<noteq> ''idle''))))"
| "may_release (HotCheckSettled out status) s =
     (case checks s of [] \<Rightarrow> False | c # cs \<Rightarrow> thenRelease c)"
| "may_release e s = False"

section \<open>Sample inputs\<close>

definition stats_ok :: stats where
  "stats_ok = \<lparr>hasErrors = False, report = ''''\<rparr>"

definition stats_failed :: stats where
  "stats_failed = \<lparr>hasErrors = True, report = ''''\<rparr>"

text \<open>Both initial compiles succeed.\<close>

definition both_compiled :: "event list" where
  "both_compiled =
     [ClientCompile 0, ServerCompile 0, ClientDone 10 stats_ok, ServerDone 20 stats_ok]"

text \<open>The server is up, then a rebuild finishes and its check is pending.\<close>

definition boot :: "event list" where
  "boot = both_compiled @ [BrowserSyncInit 30 None]"

definition rebuilt :: "event list" where
  "rebuilt = boot @ [ServerCompile 100, ServerDone 110 stats_ok]"

text \<open>
  A second rebuild starts and finishes while the check of the first is pending, then a
  request comes in.
\<close>

definition stale_dispatch :: "event list" where
  "stale_dispatch = rebuilt @ [ServerCompile 120, ServerDone 130 stats_ok, Request 1]"

text \<open>A second rebuild starts, then the check of the first settles.\<close>

definition late_release :: "event list" where
  "late_release = rebuilt @ [ServerCompile 120, HotCheckSettled (Updated None) ''idle'']"


text \<open>The scenario of the update of moduleA.\<close>

definition moduleA_updated :: "event list" where
  "moduleA_updated =
     rebuilt @ [HotCheckSettled (Updated (Some [''moduleA''])) ''idle'',
                HotCheckSettled (Updated (Some [])) ''idle'']"

section \<open>Frames\<close>

text \<open>What each callback leaves alone.\<close>

lemma handle_all_eq:
  "handle_all rs s =
     (case app s of
        None \<Rightarrow> say (map (\<lambda>r. ConsoleError (TypeError ''Cannot read property handle of undefined'')) rs) s
      | Some a \<Rightarrow> s\<lparr>handled := handled s @ map (\<lambda>r. (r, a)) rs\<rparr>)"
proof (induction rs arbitrary: s)
  case Nil
  then show ?case by (simp add: say_def split: option.splits)
next
  case (Cons r rs)
  then show ?case by (simp add: handle_def say_def split: option.splits)
qed

lemmas views = gate_view_def check_view_def start_view_def cleanup_view_def

lemma gate_view_update [simp]:
  "gate_view (s\<lparr>clientC := x_clientC\<rparr>) = gate_view s"
  "gate_view (s\<lparr>serverC := x_serverC\<rparr>) = gate_view s"
  "gate_view (s\<lparr>app := x_app\<rparr>) = gate_view s"
  "gate_view (s\<lparr>cache := x_cache\<rparr>) = gate_view s"
  "gate_view (s\<lparr>instances := x_instances\<rparr>) = gate_view s"
  "gate_view (s\<lparr>bundleHot := x_bundleHot\<rparr>) = gate_view s"
  "gate_view (s\<lparr>handled := x_handled\<rparr>) = gate_view s"
  "gate_view (s\<lparr>checks := x_checks\<rparr>) = gate_view s"
  "gate_view (s\<lparr>hotChecks := x_hotChecks\<rparr>) = gate_view s"
  "gate_view (s\<lparr>releaseCalls := x_releaseCalls\<rparr>) = gate_view s"
  "gate_view (s\<lparr>phase := x_phase\<rparr>) = gate_view s"
  "gate_view (s\<lparr>launchStart := x_launchStart\<rparr>) = gate_view s"
  "gate_view (s\<lparr>cleaning := x_cleaning\<rparr>) = gate_view s"
  "gate_view (s\<lparr>teardowns := x_teardowns\<rparr>) = gate_view s"
  "gate_view (s\<lparr>outerResolves := x_outerResolves\<rparr>) = gate_view s"
  "gate_view (s\<lparr>console := x_console\<rparr>) = gate_view s"
  "gate_view (s\<lparr>uncaught := x_uncaught\<rparr>) = gate_view s"
  by (simp_all add: gate_view_def)

lemma check_view_update [simp]:
  "check_view (s\<lparr>clientC := x_clientC\<rparr>) = check_view s"
  "check_view (s\<lparr>serverC := x_serverC\<rparr>) = check_view s"
  "check_view (s\<lparr>appPromise := x_appPromise\<rparr>) = check_view s"
  "check_view (s\<lparr>appPromiseResolve := x_appPromiseResolve\<rparr>) = check_view s"
  "check_view (s\<lparr>appPromiseIsResolved := x_appPromiseIsResolved\<rparr>) = check_view s"
  "check_view (s\<lparr>gates := x_gates\<rparr>) = check_view s"
  "check_view (s\<lparr>waiting := x_waiting\<rparr>) = check_view s"
  "check_view (s\<lparr>handled := x_handled\<rparr>) = check_view s"
  "check_view (s\<lparr>hotChecks := x_hotChecks\<rparr>) = check_view s"
  "check_view (s\<lparr>releaseCalls := x_releaseCalls\<rparr>) = check_view s"
  "check_view (s\<lparr>phase := x_phase\<rparr>) = check_view s"
  "check_view (s\<lparr>launchStart := x_launchStart\<rparr>) = check_view s"
  "check_view (s\<lparr>cleaning := x_cleaning\<rparr>) = check_view s"
  "check_view (s\<lparr>teardowns := x_teardowns\<rparr>) = check_view s"
  "check_view (s\<lparr>outerResolves := x_outerResolves\<rparr>) = check_view s"
  "check_view (s\<lparr>console := x_console\<rparr>) = check_view s"
  "check_view (s\<lparr>uncaught := x_uncaught\<rparr>) = check_view s"
  by (simp_all add: check_view_def)

lemma start_view_update [simp]:
  "start_view (s\<lparr>appPromise := x_appPromise\<rparr>) = start_view s"
  "start_view (s\<lparr>appPromiseResolve := x_appPromiseResolve\<rparr>) = start_view s"
  "start_view (s\<lparr>appPromiseIsResolved := x_appPromiseIsResolved\<rparr>) = start_view s"
  "start_view (s\<lparr>gates := x_gates\<rparr>) = start_view s"
  "start_view (s\<lparr>app := x_app\<rparr>) = start_view s"
  "start_view (s\<lparr>cache := x_cache\<rparr>) = start_view s"
  "start_view (s\<lparr>instances := x_instances\<rparr>) = start_view s"
  "start_view (s\<lparr>bundleHot := x_bundleHot\<rparr>) = start_view s"
  "start_view (s\<lparr>waiting := x_waiting\<rparr>) = start_view s"
  "start_view (s\<lparr>handled := x_handled\<rparr>) = start_view s"
  "start_view (s\<lparr>checks := x_checks\<rparr>) = start_view s"
  "start_view (s\<lparr>hotChecks := x_hotChecks\<rparr>) = start_view s"
  "start_view (s\<lparr>releaseCalls := x_releaseCalls\<rparr>) = start_view s"
  "start_view (s\<lparr>launchStart := x_launchStart\<rparr>) = start_view s"
  "start_view (s\<lparr>cleaning := x_cleaning\<rparr>) = start_view s"
  "start_view (s\<lparr>teardowns := x_teardowns\<rparr>) = start_view s"
  "start_view (s\<lparr>outerResolves := x_outerResolves\<rparr>) = start_view s"
  "start_view (s\<lparr>console := x_console\<rparr>) = start_view s"
  "start_view (s\<lparr>uncaught := x_uncaught\<rparr>) = start_view s"
  by (simp_all add: start_view_def)

lemma cleanup_view_update [simp]:
  "cleanup_view (s\<lparr>clientC := x_clientC\<rparr>) = cleanup_view s"
  "cleanup_view (s\<lparr>serverC := x_serverC\<rparr>) = cleanup_view s"
  "cleanup_view (s\<lparr>appPromise := x_appPromise\<rparr>) = cleanup_view s"
  "cleanup_view (s\<lparr>appPromiseResolve := x_appPromiseResolve\<rparr>) = cleanup_view s"
  "cleanup_view (s\<lparr>appPromiseIsResolved := x_appPromiseIsResolved\<rparr>) = cleanup_view s"
  "cleanup_view (s\<lparr>gates := x_gates\<rparr>) = cleanup_view s"
  "cleanup_view (s\<lparr>app := x_app\<rparr>) = cleanup_view s"
  "cleanup_view (s\<lparr>cache := x_cache\<rparr>) = cleanup_view s"
  "cleanup_view (s\<lparr>instances := x_instances\<rparr>) = cleanup_view s"
  "cleanup_view (s\<lparr>bundleHot := x_bundleHot\<rparr>) = cleanup_view s"
  "cleanup_view (s\<lparr>waiting := x_waiting\<rparr>) = cleanup_view s"
  "cleanup_view (s\<lparr>handled := x_handled\<rparr>) = cleanup_view s"
  "cleanup_view (s\<lparr>checks := x_checks\<rparr>) = cleanup_view s"
  "cleanup_view (s\<lparr>hotChecks := x_hotChecks\<rparr>) = cleanup_view s"
  "cleanup_view (s\<lparr>releaseCalls := x_releaseCalls\<rparr>) = cleanup_view s"
  "cleanup_view (s\<lparr>phase := x_phase\<rparr>) = cleanup_view s"
  "cleanup_view (s\<lparr>launchStart := x_launchStart\<rparr>) = cleanup_view s"
  "cleanup_view (s\<lparr>console := x_console\<rparr>) = cleanup_view s"
  "cleanup_view (s\<lparr>uncaught := x_uncaught\<rparr>) = cleanup_view s"
  by (simp_all add: cleanup_view_def)


lemma say_frame [simp]:
  "gate_view (say ls s) = gate_view s" "check_view (say ls s) = check_view s"
  "start_view (say ls s) = start_view s" "cleanup_view (say ls s) = cleanup_view s"
  by (simp_all add: views say_def)

lemma throw_frame [simp]:
  "gate_view (throw e s) = gate_view s" "check_view (throw e s) = check_view s"
  "start_view (throw e s) = start_view s" "cleanup_view (throw e s) = cleanup_view s"
  by (simp_all add: views throw_def)

lemma cleanupAndExit_frame [simp]:
  "gate_view (cleanupAndExit s) = gate_view s" "check_view (cleanupAndExit s) = check_view s"
  "start_view (cleanupAndExit s) = start_view s"
  by (simp_all add: views cleanupAndExit_def say_def)

lemma teardown_settled_frame [simp]:
  "gate_view (teardown_settled r s) = gate_view s"
  "check_view (teardown_settled r s) = check_view s"
  "start_view (teardown_settled r s) = start_view s"
  by (simp_all add: views teardown_settled_def say_def throw_def split: option.splits promise.splits)

lemma catch_start_frame [simp]:
  "gate_view (catch_start e s) = gate_view s" "check_view (catch_start e s) = check_view s"
  by (simp_all add: views catch_start_def cleanupAndExit_def say_def)

lemma gate_compile_frame [simp]:
  "check_view (gate_compile s) = check_view s" "start_view (gate_compile s) = start_view s"
  "cleanup_view (gate_compile s) = cleanup_view s"
  by (simp_all add: views gate_compile_def)

lemma handle_frame [simp]:
  "gate_view (handle r s) = gate_view s" "check_view (handle r s) = check_view s"
  "start_view (handle r s) = start_view s" "cleanup_view (handle r s) = cleanup_view s"
  by (simp_all add: views handle_def say_def split: option.splits)

lemma handle_all_frame [simp]:
  "gate_view (handle_all rs s) = gate_view s" "check_view (handle_all rs s) = check_view s"
  "start_view (handle_all rs s) = start_view s" "cleanup_view (handle_all rs s) = cleanup_view s"
  by (simp_all add: views handle_all_eq say_def split: option.splits)

lemma middleware_frame [simp]:
  "check_view (middleware r s) = check_view s" "start_view (middleware r s) = start_view s"
  "cleanup_view (middleware r s) = cleanup_view s"
  by (simp_all add: middleware_def throw_def split: option.splits)

lemma resolve_gate_frame [simp]:
  "check_view (resolve_gate g s) = check_view s" "start_view (resolve_gate g s) = start_view s"
  "cleanup_view (resolve_gate g s) = cleanup_view s"
  by (simp_all add: resolve_gate_def)

lemma release_frame [simp]:
  "check_view (snd (release s)) = check_view s" "start_view (snd (release s)) = start_view s"
  "cleanup_view (snd (release s)) = cleanup_view s"
  by (simp_all add: release_def Let_def split: option.splits)

lemma release_reaction_frame [simp]:
  "check_view (release_reaction s) = check_view s"
  "start_view (release_reaction s) = start_view s"
  "cleanup_view (release_reaction s) = cleanup_view s"
  by (simp_all add: release_reaction_def case_prod_beta split: option.splits)

lemma require_server_frame [simp]:
  "gate_view (snd (require_server s)) = gate_view s"
  "start_view (snd (require_server s)) = start_view s"
  "cleanup_view (snd (require_server s)) = cleanup_view s"
  by (simp_all add: views require_server_def split: option.splits)

lemma checkForUpdate_frame:
  "checkForUpdate f s = Inr (r, s') \<Longrightarrow>
     gate_view s' = gate_view s \<and> start_view s' = start_view s \<and> cleanup_view s' = cleanup_view s"
  by (auto simp: views checkForUpdate_def split: option.splits if_splits)

lemma then_handler_frame [simp]:
  "gate_view (snd (then_handler f um s)) = gate_view s"
  "start_view (snd (then_handler f um s)) = start_view s"
  "cleanup_view (snd (then_handler f um s)) = cleanup_view s"
  by (auto simp: then_handler_def Let_def split: option.splits sum.splits
           dest: checkForUpdate_frame)

lemma catch_handler_frame [simp]:
  "gate_view (snd (catch_handler e s)) = gate_view s"
  "start_view (snd (catch_handler e s)) = start_view s"
  "cleanup_view (snd (catch_handler e s)) = cleanup_view s"
  by (simp_all add: catch_handler_def Let_def case_prod_beta split: option.splits)

lemma then_release_frame [simp]:
  "gate_view (then_release k s) = gate_view s" "start_view (then_release k s) = start_view s"
  "cleanup_view (then_release k s) = cleanup_view s"
  by (simp_all add: views then_release_def)

lemma check_settled_frame [simp]:
  "start_view (check_settled out st s) = start_view s"
  "cleanup_view (check_settled out st s) = cleanup_view s"
  by (simp_all add: check_settled_def Let_def case_prod_beta
               split: list.splits option.splits check_outcome.splits)

lemma watch_callback_frame [simp]:
  "start_view (watch_callback err sts s) = start_view s"
  "cleanup_view (watch_callback err sts s) = cleanup_view s"
  by (auto simp: watch_callback_def split: option.splits sum.splits returned.splits
           dest: checkForUpdate_frame)

lemma client_tap_frame [simp]:
  "gate_view (client_tap x s) = gate_view s" "check_view (client_tap x s) = check_view s"
  "cleanup_view (client_tap x s) = cleanup_view s"
  by (simp_all add: client_tap_def)

lemma server_tap_frame [simp]:
  "gate_view (server_tap x s) = gate_view s" "check_view (server_tap x s) = check_view s"
  "cleanup_view (server_tap x s) = cleanup_view s"
  by (simp_all add: server_tap_def)

lemma browserSync_init_frame [simp]:
  "gate_view (browserSync_init now err s) = gate_view s"
  "check_view (browserSync_init now err s) = check_view s"
  by (simp_all add: browserSync_init_def split: option.splits)

section \<open>The compilation promise\<close>

lemma notifications_append:
  "notifications name (xs @ ys) x = notifications name ys (notifications name xs x)"
  by (induction xs arbitrary: x) auto

lemma outcome_notify_settled:
  "outcome c \<noteq> Pending \<Longrightarrow> outcome (fst (notify name n (c, out))) = outcome c"
  by (cases n; cases "outcome c") (auto simp: compile_tap_def done_tap_def Let_def)

lemma outcome_notifications_settled:
  "outcome (fst x) \<noteq> Pending \<Longrightarrow> outcome (fst (notifications name ns x)) = outcome (fst x)"
proof (induction ns arbitrary: x)
  case Nil
  then show ?case by simp
next
  case (Cons n ns)
  obtain c out where x: "x = (c, out)" by (cases x)
  from Cons.prems x have "outcome (fst (notify name n x)) = outcome (fst x)"
    using outcome_notify_settled [of c name n out] by simp
  with Cons show ?case by simp
qed

lemma outcome_notifications_pending:
  "outcome (fst x) = Pending \<Longrightarrow>
   outcome (fst (notifications name ns x)) =
     (case first_done ns of None \<Rightarrow> Pending
      | Some st \<Rightarrow> if hasErrors st then Rejected (Error ''Compilation failed!'') else Fulfilled st)"
proof (induction ns arbitrary: x)
  case Nil
  then show ?case by simp
next
  case (Cons n ns)
  obtain c out where x: "x = (c, out)" by (cases x)
  show ?case
  proof (cases n)
    case (CompileStart now)
    with Cons x show ?thesis by (simp add: compile_tap_def)
  next
    case (CompileDone now st)
    with Cons.prems x have "outcome (fst (notify name n x)) =
        (if hasErrors st then Rejected (Error ''Compilation failed!'') else Fulfilled st)"
      by (simp add: done_tap_def Let_def)
    then show ?thesis
      using CompileDone outcome_notifications_settled [of "notify name n x" name ns]
      by (simp split: if_splits)
  qed
qed

lemma timeStart_no_start:
  "list_all (\<lambda>n. \<not> is_start n) ns \<Longrightarrow>
   timeStart (fst (notifications name ns x)) = timeStart (fst x)"
proof (induction ns arbitrary: x)
  case Nil
  then show ?case by simp
next
  case (Cons n ns)
  obtain c out where x: "x = (c, out)" by (cases x)
  from Cons.prems obtain now st where n: "n = CompileDone now st" by (cases n) auto
  have "timeStart (fst (notify name n x)) = timeStart (fst x)"
    using x n by (simp add: done_tap_def Let_def)
  with Cons show ?case by simp
qed

lemma last_done:
  "last (snd (notify name (CompileDone tE st) x)) =
     (if hasErrors st then FailedInfo name tE (tE - timeStart (fst x))
      else FinishedInfo name tE (tE - timeStart (fst x)))"
  by (cases x) (simp add: done_tap_def Let_def)

lemma timeStart_start: "timeStart (fst (notify name (CompileStart tS) x)) = tS"
  by (cases x) (simp add: compile_tap_def)

text \<open>
  C3. Whatever notifications a compiler sends, the promise of
  \<open>createCompilationPromise\<close> is settled by the first compile-done and by nothing
  else: it is pending while there was none, fulfilled with the statistics when the
  first one has no errors, rejected with \<open>Compilation failed!\<close> when it has. The
  notifications that follow leave the settled promise as it is. The duration printed
  at a compile-done is the time since the latest compile-start before it.
\<close>

theorem createCompilationPromise_first_outcome:
  assumes "list_all (\<lambda>n. \<not> is_start n) mid"
  shows "outcome (fst (notifications name ns (createCompilationPromise now, []))) =
           (case first_done ns of
              None \<Rightarrow> Pending
            | Some st \<Rightarrow> if hasErrors st then Rejected (Error ''Compilation failed!'')
                         else Fulfilled st)
         \<and> (first_done ns \<noteq> None \<longrightarrow>
              outcome (fst (notifications name (ns @ later) (createCompilationPromise now, []))) =
              outcome (fst (notifications name ns (createCompilationPromise now, []))))
         \<and> last (snd (notifications name (pre @ [CompileStart tS] @ mid @ [CompileDone tE st])
                        (createCompilationPromise now, []))) =
           (if hasErrors st then FailedInfo name tE (tE - tS) else FinishedInfo name tE (tE - tS))"
proof (intro conjI)
  let ?c = "(createCompilationPromise now, [])"
  show first: "outcome (fst (notifications name ns ?c)) =
           (case first_done ns of
              None \<Rightarrow> Pending
            | Some st \<Rightarrow> if hasErrors st then Rejected (Error ''Compilation failed!'')
                         else Fulfilled st)"
    by (rule outcome_notifications_pending) (simp add: createCompilationPromise_def)
  show "first_done ns \<noteq> None \<longrightarrow>
          outcome (fst (notifications name (ns @ later) ?c)) =
          outcome (fst (notifications name ns ?c))"
    using first outcome_notifications_settled [of "notifications name ns ?c" name later]
    by (auto simp: notifications_append split: option.splits if_splits)
  let ?x = "notifications name pre ?c"
  have "timeStart (fst (notifications name mid (notify name (CompileStart tS) ?x))) = tS"
    using timeStart_no_start [OF assms] timeStart_start by simp
  then show "last (snd (notifications name (pre @ [CompileStart tS] @ mid @ [CompileDone tE st]) ?c)) =
           (if hasErrors st then FailedInfo name tE (tE - tS) else FinishedInfo name tE (tE - tS))"
    by (simp add: notifications_append last_done)
qed

theorem createCompilationPromise_first_outcome_witness:
  "list_all (\<lambda>n. \<not> is_start n) [CompileDone 3 stats_failed]
   \<and> outcome (fst (notifications ''server''
        [CompileStart 2, CompileDone 3 stats_failed, CompileStart 5, CompileDone 9 stats_ok]
        (createCompilationPromise 0, []))) = Rejected (Error ''Compilation failed!'')
   \<and> outcome (fst (notifications ''server''
        ([CompileStart 2, CompileDone 3 stats_failed, CompileStart 5, CompileDone 9 stats_ok] @
         [CompileStart 11, CompileDone 12 stats_ok])
        (createCompilationPromise 0, []))) = Rejected (Error ''Compilation failed!'')
   \<and> last (snd (notifications ''server''
        ([CompileStart 1] @ [CompileStart 2] @ [CompileDone 3 stats_failed] @ [CompileDone 9 stats_ok])
        (createCompilationPromise 0, []))) = FinishedInfo ''server'' 9 7"
  using createCompilationPromise_first_outcome
    [where mid = "[CompileDone 3 stats_failed]" and name = "''server''"
       and ns = "[CompileStart 2, CompileDone 3 stats_failed, CompileStart 5, CompileDone 9 stats_ok]"
       and now = 0 and later = "[CompileStart 11, CompileDone 12 stats_ok]"
       and pre = "[CompileStart 1]" and tS = 2 and tE = 9 and st = stats_ok]
  by (simp add: stats_ok_def stats_failed_def)

section \<open>The gate invariant\<close>

lemma gate_inv_alt:
  "gate_inv s =
     (case gate_view s of
        (r, p, f, gs, ws) \<Rightarrow>
          r = p \<and> (f \<longrightarrow> ws = []) \<and>
          (case p of
             None \<Rightarrow> gs = [] \<and> f
           | Some g \<Rightarrow> gs = replicate g True @ [f] \<and> list_all (\<lambda>w. fst w = g) ws))"
  by (simp add: gate_inv_def gate_view_def)

lemma gate_inv_gate_compile: "gate_inv s \<Longrightarrow> gate_inv (gate_compile s)"
  by (auto simp: gate_inv_def gate_compile_def replicate_append_same split: option.splits)

lemma gate_inv_middleware: "gate_inv s \<Longrightarrow> gate_inv (middleware r s)"
  by (auto simp: gate_inv_def middleware_def gate_resolved_def throw_def handle_def say_def
                 nth_append
           split: option.splits)

lemma filter_all: "list_all P xs \<Longrightarrow> filter P xs = xs"
  by (induction xs) auto

lemma filter_none: "list_all P xs \<Longrightarrow> filter (\<lambda>x. \<not> P x) xs = []"
  by (induction xs) auto

lemma replicate_update_last:
  "(replicate g True @ [b])[g := True] = replicate (Suc g) True"
  using list_update_length [of "replicate g True" b "[]" True]
  by (simp add: replicate_append_same)

lemma gate_inv_resolve_gate:
  "gate_inv s \<Longrightarrow> appPromise s = Some g \<Longrightarrow> appPromiseIsResolved s \<Longrightarrow> resolve_gate g s = s"
  by (simp add: gate_inv_def resolve_gate_def gate_resolved_def nth_append)

lemma release_eq:
  assumes "gate_inv s"
  shows "release s =
     (case appPromise s of
        None \<Rightarrow> (Some (TypeError ''appPromiseResolve is not a function''), s)
      | Some g \<Rightarrow>
          (None,
           handle_all (map snd (waiting s))
             (s\<lparr>appPromiseIsResolved := True, releaseCalls := Suc (releaseCalls s),
                gates := replicate (Suc g) True, waiting := []\<rparr>)))"
proof (cases "appPromise s")
  case None
  with assms show ?thesis by (simp add: release_def gate_inv_def)
next
  case (Some g)
  show ?thesis
  proof (cases "appPromiseIsResolved s")
    case True
    with assms Some have "waiting s = []" "gates s = replicate (Suc g) True"
      by (simp_all add: gate_inv_def replicate_append_same)
    with assms Some True show ?thesis
      by (simp add: release_def gate_inv_def resolve_gate_def gate_resolved_def nth_append)
  next
    case False
    with assms Some have g: "gates s = replicate g True @ [False]" 
      and w: "list_all (\<lambda>w. fst w = g) (waiting s)"
      by (simp_all add: gate_inv_def)
    from w have "filter (\<lambda>w. fst w = g) (waiting s) = waiting s"
      "filter (\<lambda>w. fst w \<noteq> g) (waiting s) = []"
      by (simp_all add: filter_all filter_none)
    with assms Some False g show ?thesis
      by (simp add: release_def gate_inv_def resolve_gate_def gate_resolved_def nth_append
                    replicate_update_last del: replicate_Suc)
  qed
qed

lemma gate_inv_release: "gate_inv s \<Longrightarrow> gate_inv (snd (release s))"
proof (cases "appPromise s")
  case None
  assume "gate_inv s"
  with None show ?thesis by (simp add: release_eq)
next
  case (Some g)
  assume inv: "gate_inv s"
  let ?s1 = "s\<lparr>appPromiseIsResolved := True, releaseCalls := Suc (releaseCalls s),
                gates := replicate (Suc g) True, waiting := []\<rparr>"
  have "gate_inv ?s1"
    using inv Some by (simp add: gate_inv_def replicate_append_same)
  then have "gate_inv (handle_all (map snd (waiting s)) ?s1)"
    by (simp add: gate_inv_alt)
  with inv Some show ?thesis by (simp add: release_eq)
qed

lemma gate_inv_release_reaction: "gate_inv s \<Longrightarrow> gate_inv (release_reaction s)"
  using gate_inv_release [of s]
  by (simp add: release_reaction_def case_prod_beta gate_inv_alt split: option.splits)

lemma gate_inv_then_handler [simp]: "gate_inv (snd (then_handler f um s)) = gate_inv s"
  by (simp add: gate_inv_alt)

lemma gate_inv_catch_handler [simp]: "gate_inv (snd (catch_handler e s)) = gate_inv s"
  by (simp add: gate_inv_alt)

lemma gate_inv_check_settled: "gate_inv s \<Longrightarrow> gate_inv (check_settled out st s)"
proof (cases "checks s")
  case Nil
  assume "gate_inv s"
  with Nil show ?thesis by (simp add: check_settled_def)
next
  case (Cons c cs)
  assume inv: "gate_inv s"
  let ?s0 = "s\<lparr>checks := cs, instances := (instances s)[onInstance c := Some st]\<rparr>"
  have s0: "gate_inv ?s0" using inv by (simp add: gate_inv_alt)
  show ?thesis
    using Cons s0
    by (simp add: check_settled_def Let_def case_prod_beta gate_inv_release_reaction
             split: option.splits check_outcome.splits)
       (simp add: gate_inv_alt)
qed

lemma gate_inv_watch_callback: "gate_inv s \<Longrightarrow> gate_inv (watch_callback err sts s)"
proof -
  assume inv: "gate_inv s"
  have "gate_inv s'" if "checkForUpdate False s = Inr (r, s')" for r s'
    using checkForUpdate_frame [OF that] inv by (simp add: gate_inv_alt)
  with inv show ?thesis
    by (auto simp: watch_callback_def gate_inv_release_reaction
             split: option.splits sum.splits returned.splits)
       (simp_all add: gate_inv_alt)
qed

lemma gate_inv_launch: "gate_inv s \<Longrightarrow> gate_inv (launch now s)"
proof -
  assume inv: "gate_inv s"
  let ?s1 = "say [LaunchingInfo now] (s\<lparr>launchStart := now\<rparr>)"
  let ?s3 = "(snd (require_server ?s1))\<lparr>app := Some (fst (require_server ?s1))\<rparr>"
  have "gate_inv ?s3" using inv by (simp add: gate_inv_alt)
  then have r: "gate_inv (snd (release ?s3))" by (rule gate_inv_release)
  then have "gate_inv (catch_start e (snd (release ?s3)))" for e
    by (simp add: gate_inv_alt)
  moreover have "gate_inv ((snd (release ?s3))\<lparr>phase := AwaitBrowserSync\<rparr>)"
    using r by (simp add: gate_inv_alt)
  ultimately show ?thesis
    by (simp add: launch_def Let_def case_prod_beta split: option.splits)
qed

lemma gate_inv_catch_start [simp]: "gate_inv (catch_start e s) = gate_inv s"
  by (simp add: gate_inv_alt)

lemma gate_inv_resume: "gate_inv s \<Longrightarrow> gate_inv (resume now s)"
proof -
  assume inv: "gate_inv s"
  have "gate_inv (s\<lparr>phase := AwaitServer\<rparr>)" using inv by (simp add: gate_inv_alt)
  with inv show ?thesis
    by (simp add: resume_def await_server_def gate_inv_launch
             split: phase.splits promise.splits)
qed

lemma gate_inv_step: "gate_inv s \<Longrightarrow> gate_inv (step e s)"
proof (cases e)
  case (ClientCompile now)
  assume "gate_inv s"
  with ClientCompile show ?thesis by (simp add: gate_inv_alt)
next
  case (ClientDone now st)
  assume "gate_inv s"
  then have "gate_inv (client_tap (done_tap ''client'' now st (clientC s)) s)"
    by (simp add: gate_inv_alt)
  with ClientDone show ?thesis by (simp add: gate_inv_resume)
next
  case (ServerCompile now)
  assume "gate_inv s"
  then have "gate_inv (server_tap (compile_tap ''server'' now (serverC s)) s)"
    by (simp add: gate_inv_alt)
  with ServerCompile show ?thesis by (simp add: gate_inv_gate_compile)
next
  case (ServerDone now st)
  assume "gate_inv s"
  then have "gate_inv (server_tap (done_tap ''server'' now st (serverC s)) s)"
    by (simp add: gate_inv_alt)
  with ServerDone show ?thesis by (simp add: gate_inv_resume gate_inv_watch_callback)
next
  case (ServerWatchError x)
  assume "gate_inv s"
  with ServerWatchError show ?thesis by (simp add: gate_inv_watch_callback)
next
  case (Request r)
  assume "gate_inv s"
  with Request show ?thesis by (simp add: gate_inv_middleware)
next
  case (HotCheckSettled out st)
  assume "gate_inv s"
  with HotCheckSettled show ?thesis by (simp add: gate_inv_check_settled)
next
  case (BrowserSyncInit now err)
  assume "gate_inv s"
  with BrowserSyncInit show ?thesis by (simp add: gate_inv_alt)
next
  case KillSignal
  assume "gate_inv s"
  with KillSignal show ?thesis by (simp add: gate_inv_alt)
next
  case (TeardownSettled r)
  assume "gate_inv s"
  with TeardownSettled show ?thesis by (simp add: gate_inv_alt)
qed

lemma gate_inv_init: "gate_inv (init now hot)"
  by (simp add: gate_inv_def init_def)

lemma gate_inv_run: "gate_inv s \<Longrightarrow> gate_inv (run es s)"
  by (induction es arbitrary: s) (simp_all add: gate_inv_step)

section \<open>The cleanup invariant\<close>












lemma cleaning_alt: "cleaning s = fst (cleanup_view s)"
  by (simp del: not_None_eq add: cleanup_view_def)








section \<open>The invariant of start\<close>

lemma app_alt: "app s = fst (snd (check_view s))"
  by (simp add: check_view_def)

lemma trackers_alt:
  "phase s = fst (start_view s)" "clientC s = fst (snd (start_view s))"
  "serverC s = snd (snd (start_view s))"
  by (simp_all add: start_view_def)

lemma start_inv_alt:
  "start_inv s =
     (case start_view s of
        (ph, c, sv) \<Rightarrow>
          (case ph of
             AwaitClient \<Rightarrow> outcome c = Pending \<and> fst (snd (check_view s)) = None
           | AwaitServer \<Rightarrow>
               is_fulfilled (outcome c) \<and> outcome sv = Pending \<and> fst (snd (check_view s)) = None
           | AwaitBrowserSync \<Rightarrow>
               is_fulfilled (outcome c) \<and> is_fulfilled (outcome sv) \<and>
               fst (snd (check_view s)) \<noteq> None
           | Launched \<Rightarrow>
               is_fulfilled (outcome c) \<and> is_fulfilled (outcome sv) \<and>
               fst (snd (check_view s)) \<noteq> None
           | Caught \<Rightarrow>
               fst (cleanup_view s) \<noteq> None \<and> outcome c \<noteq> Pending \<and>
               (is_fulfilled (outcome c) \<longrightarrow> outcome sv \<noteq> Pending) \<and>
               (fst (snd (check_view s)) \<noteq> None \<longrightarrow>
                  is_fulfilled (outcome c) \<and> is_fulfilled (outcome sv))))"
  by (simp add: start_inv_def start_view_def check_view_def cleanup_view_def split: phase.splits)

lemma app_release [simp]: "app (snd (release s)) = app s"
  by (simp add: app_alt)

lemma app_require_server:
  "app (snd (require_server s)) = app s"
  by (simp add: require_server_def split: option.splits)







lemma resume_later:
  "phase s \<noteq> AwaitClient \<Longrightarrow> phase s \<noteq> AwaitServer \<Longrightarrow> resume now s = s"
  by (simp add: resume_def split: phase.splits)



lemma client_tap_fields:
  "phase (client_tap x s) = phase s" "app (client_tap x s) = app s"
  "cleaning (client_tap x s) = cleaning s" "serverC (client_tap x s) = serverC s"
  "clientC (client_tap x s) = fst x"
  by (simp_all add: client_tap_def say_def)

lemma server_tap_fields:
  "phase (server_tap x s) = phase s" "app (server_tap x s) = app s"
  "cleaning (server_tap x s) = cleaning s" "clientC (server_tap x s) = clientC s"
  "serverC (server_tap x s) = fst x"
  by (simp_all add: server_tap_def say_def)


lemma app_checkForUpdate: "checkForUpdate f s = Inr (r, s') \<Longrightarrow> app s' = app s"
  by (auto simp: checkForUpdate_def split: option.splits if_splits)

lemma app_release_reaction [simp]: "app (release_reaction s) = app s"
  by (simp add: app_alt)

lemma app_then_release [simp]: "app (then_release k s) = app s"
  by (simp add: then_release_def)

lemma app_watch_callback [simp]: "app (watch_callback err sts s) = app s"
  by (auto simp: watch_callback_def throw_def
           split: option.splits sum.splits returned.splits dest: app_checkForUpdate)

lemma watch_callback_fields:
  "phase (watch_callback err sts s) = phase s" "clientC (watch_callback err sts s) = clientC s"
  "serverC (watch_callback err sts s) = serverC s"
  "cleaning (watch_callback err sts s) = cleaning s"
  by (simp_all add: trackers_alt cleaning_alt)



lemma app_then_handler [simp]: "app (snd (then_handler f um s)) = app s"
  by (auto simp: then_handler_def Let_def say_def split: option.splits sum.splits
           dest: app_checkForUpdate)






section \<open>The invariant of the patch loop\<close>

lemma check_inv_alt:
  "check_inv s =
     (case check_view s of
        (ca, ap, ins, chs, bh) \<Rightarrow>
          ca = ap \<and>
          (case ap of
             None \<Rightarrow> chs = []
           | Some a \<Rightarrow>
               a < length ins \<and>
               (case chs of
                  [] \<Rightarrow> True
                | c # cs \<Rightarrow> cs = [] \<and> onInstance c = a \<and> ins ! a = Some ''check'')))"
  by (simp add: check_inv_def check_view_def)

lemma check_inv_checkForUpdate:
  "check_inv s \<Longrightarrow> checkForUpdate f s = Inr (r, s') \<Longrightarrow> check_inv s'"
  by (auto simp: check_inv_def checkForUpdate_def hot_of_def
           split: option.splits if_splits list.splits)

lemma check_inv_then_release: "check_inv s \<Longrightarrow> check_inv (then_release k s)"
  by (auto simp: check_inv_def then_release_def split: option.splits list.splits)

lemma check_inv_then_handler: "check_inv s \<Longrightarrow> check_inv (snd (then_handler f um s))"
proof -
  assume inv: "check_inv s"
  then have "check_inv (say ls s)" for ls by (simp add: check_inv_alt)
  then show ?thesis
    using inv
    by (auto simp: then_handler_def Let_def split: option.splits sum.splits
             dest: check_inv_checkForUpdate)
qed

lemma check_inv_catch_handler:
  "check_inv s \<Longrightarrow> checks s = [] \<Longrightarrow> check_inv (snd (catch_handler e s))"
  by (auto simp: check_inv_def catch_handler_def Let_def case_prod_beta say_def
                 require_server_def
           split: option.splits)

lemma checks_then_handler_throws:
  "fst (then_handler f um s) \<noteq> None \<Longrightarrow> checks (snd (then_handler f um s)) = checks s"
  by (auto simp: then_handler_def Let_def say_def split: option.splits sum.splits if_splits)

lemma check_inv_release_reaction [simp]: "check_inv (release_reaction s) = check_inv s"
  by (simp add: check_inv_alt)

lemma check_inv_throw [simp]: "check_inv (throw e s) = check_inv s"
  by (simp add: check_inv_alt)

lemma check_inv_check_settled: "check_inv s \<Longrightarrow> check_inv (check_settled out st s)"
proof (cases "checks s")
  case Nil
  assume "check_inv s"
  with Nil show ?thesis by (simp add: check_settled_def)
next
  case (Cons c cs)
  assume inv: "check_inv s"
  let ?s0 = "s\<lparr>checks := cs, instances := (instances s)[onInstance c := Some st]\<rparr>"
  from inv Cons have s0: "check_inv ?s0" "checks ?s0 = []"
    by (auto simp: check_inv_def split: option.splits)
  have after_catch: "check_inv (snd (catch_handler e s1))"
    if "check_inv s1" "checks s1 = []" for e s1
    using that by (rule check_inv_catch_handler)
  show ?thesis
  proof (cases out)
    case (Updated um)
    let ?r1 = "then_handler (fromUpdate c) um ?s0"
    have r1: "check_inv (snd ?r1)" using s0(1) by (rule check_inv_then_handler)
    show ?thesis
    proof (cases "fst ?r1")
      case None
      with Cons Updated r1 show ?thesis
        by (simp add: check_settled_def Let_def case_prod_beta)
    next
      case (Some e)
      then have "checks (snd ?r1) = []"
        using checks_then_handler_throws [of "fromUpdate c" um ?s0] s0(2) by simp
      with r1 have "check_inv (snd (catch_handler e (snd ?r1)))" by (rule after_catch)
      with Cons Updated Some show ?thesis
        by (simp add: check_settled_def Let_def case_prod_beta split: option.splits)
    qed
  next
    case (CheckFailed e)
    from s0 have "check_inv (snd (catch_handler e ?s0))" by (rule after_catch)
    with Cons CheckFailed show ?thesis
      by (simp add: check_settled_def Let_def case_prod_beta split: option.splits)
  qed
qed

lemma check_inv_watch_callback: "check_inv s \<Longrightarrow> check_inv (watch_callback err sts s)"
  by (auto simp: watch_callback_def check_inv_then_release
           split: option.splits sum.splits returned.splits
           dest: check_inv_checkForUpdate)

lemma check_inv_launch: "check_inv s \<Longrightarrow> check_inv (launch now s)"
proof -
  assume inv: "check_inv s"
  let ?s1 = "say [LaunchingInfo now] (s\<lparr>launchStart := now\<rparr>)"
  let ?s3 = "(snd (require_server ?s1))\<lparr>app := Some (fst (require_server ?s1))\<rparr>"
  have "check_inv ?s3"
    using inv
    by (auto simp: check_inv_def require_server_def say_def split: option.splits list.splits)
  then have r: "check_inv (snd (release ?s3))" by (simp add: check_inv_alt)
  then have "check_inv (catch_start e (snd (release ?s3)))" for e
    by (simp add: check_inv_alt)
  moreover have "check_inv ((snd (release ?s3))\<lparr>phase := AwaitBrowserSync\<rparr>)"
    using r by (simp add: check_inv_alt)
  ultimately show ?thesis
    by (simp add: launch_def Let_def case_prod_beta split: option.splits)
qed

lemma check_inv_resume: "check_inv s \<Longrightarrow> check_inv (resume now s)"
proof -
  assume inv: "check_inv s"
  have "check_inv (s\<lparr>phase := AwaitServer\<rparr>)" using inv by (simp add: check_inv_alt)
  moreover have "check_inv (catch_start e s')" if "check_inv s'" for e s'
    using that by (simp add: check_inv_alt)
  ultimately show ?thesis
    using inv
    by (simp add: resume_def await_server_def check_inv_launch
             split: phase.splits promise.splits)
qed

lemma check_inv_step: "check_inv s \<Longrightarrow> check_inv (step e s)"
proof (cases e)
  case (ClientCompile now)
  assume "check_inv s"
  with ClientCompile show ?thesis by (simp add: check_inv_alt)
next
  case (ClientDone now st)
  assume "check_inv s"
  then have "check_inv (client_tap (done_tap ''client'' now st (clientC s)) s)"
    by (simp add: check_inv_alt)
  with ClientDone show ?thesis by (simp add: check_inv_resume)
next
  case (ServerCompile now)
  assume "check_inv s"
  with ServerCompile show ?thesis by (simp add: check_inv_alt)
next
  case (ServerDone now st)
  assume "check_inv s"
  then have "check_inv (server_tap (done_tap ''server'' now st (serverC s)) s)"
    by (simp add: check_inv_alt)
  with ServerDone show ?thesis by (simp add: check_inv_resume check_inv_watch_callback)
next
  case (ServerWatchError x)
  assume "check_inv s"
  with ServerWatchError show ?thesis by (simp add: check_inv_watch_callback)
next
  case (Request r)
  assume "check_inv s"
  with Request show ?thesis by (simp add: check_inv_alt)
next
  case (HotCheckSettled out st)
  assume "check_inv s"
  with HotCheckSettled show ?thesis by (simp add: check_inv_check_settled)
next
  case (BrowserSyncInit now err)
  assume "check_inv s"
  with BrowserSyncInit show ?thesis by (simp add: check_inv_alt)
next
  case KillSignal
  assume "check_inv s"
  with KillSignal show ?thesis by (simp add: check_inv_alt)
next
  case (TeardownSettled r)
  assume "check_inv s"
  with TeardownSettled show ?thesis by (simp add: check_inv_alt)
qed

lemma check_inv_init: "check_inv (init now hot)"
  by (simp add: check_inv_def init_def)

lemma check_inv_run: "check_inv s \<Longrightarrow> check_inv (run es s)"
  by (induction es arbitrary: s) (simp_all add: check_inv_step)

section \<open>Evaluation\<close>

lemmas model_defs =
  init_def createCompilationPromise_def compile_tap_def done_tap_def say_def throw_def
  cleanupAndExit_def teardown_settled_def catch_start_def gate_resolved_def gate_compile_def
  handle_def middleware_def resolve_gate_def release_def hot_of_def require_server_def
  checkForUpdate_def then_handler_def catch_handler_def release_reaction_def then_release_def
  check_settled_def watch_callback_def launch_def await_server_def resume_def
  browserSync_init_def client_tap_def server_tap_def Let_def

lemmas sample_defs =
  stats_ok_def stats_failed_def both_compiled_def boot_def rebuilt_def

section \<open>The re-entry guard and the re-arming of the gate\<close>

text \<open>
  C7. A call of \<open>checkForUpdate\<close> while the hot interface of the loaded module is not
  idle does nothing: the state is the one before the call (no status changes, no call
  of \<open>check\<close>), and the promise it returns is resolved already.
\<close>

theorem checkForUpdate_not_idle:
  assumes "app s = Some a" and "hot_of s a = Some status" and "status \<noteq> ''idle''"
  shows "checkForUpdate fromUpd s = Inr (Resolved, s)"
  using assms by (simp add: checkForUpdate_def)

theorem checkForUpdate_not_idle_witness:
  "app (run rebuilt (init 0 True)) = Some 0
   \<and> hot_of (run rebuilt (init 0 True)) 0 = Some ''check''
   \<and> ''check'' \<noteq> ''idle''
   \<and> checkForUpdate False (run rebuilt (init 0 True)) = Inr (Resolved, run rebuilt (init 0 True))"
proof -
  have a: "app (run rebuilt (init 0 True)) = Some 0"
    by (simp add: sample_defs model_defs)
  have h: "hot_of (run rebuilt (init 0 True)) 0 = Some ''check''"
    by (simp add: sample_defs model_defs)
  have n: "''check'' \<noteq> ''idle''" by simp
  show ?thesis
    using a h n checkForUpdate_not_idle [OF a h n, of False] by simp
qed

lemma unresolved_gates_le_1:
  assumes "gate_inv s"
  shows "length (filter (\<lambda>b. \<not> b) (gates s)) \<le> 1"
proof (cases "appPromise s")
  case None
  with assms show ?thesis by (simp add: gate_inv_def)
next
  case (Some g)
  with assms have "gates s = replicate g True @ [appPromiseIsResolved s]"
    by (simp add: gate_inv_def)
  then show ?thesis by simp
qed

text \<open>
  C8. A compile-start of the server compiler while the gate is unresolved changes
  nothing: the promise in \<open>appPromise\<close>, its resolver and the store of promises stay
  as they are, so the tap is idempotent. A compile-start while the gate is resolved
  makes one new unresolved promise. After any sequence of turns at most one promise of
  the gate is unresolved.
\<close>

theorem gate_compile_coalesces:
  "(\<not> appPromiseIsResolved s \<longrightarrow>
      gate_compile s = s \<and> gate_view (step (ServerCompile now') s) = gate_view s)
   \<and> gate_compile (gate_compile s) = gate_compile s
   \<and> (appPromiseIsResolved s \<longrightarrow>
        gates (gate_compile s) = gates s @ [False] \<and>
        appPromise (gate_compile s) = Some (length (gates s)) \<and>
        \<not> appPromiseIsResolved (gate_compile s))
   \<and> length (filter (\<lambda>b. \<not> b) (gates (run es (init now hot)))) \<le> 1"
proof (intro conjI)
  show "\<not> appPromiseIsResolved s \<longrightarrow>
      gate_compile s = s \<and> gate_view (step (ServerCompile now') s) = gate_view s"
    by (simp add: gate_compile_def gate_view_def server_tap_def say_def)
  show "gate_compile (gate_compile s) = gate_compile s"
    by (simp add: gate_compile_def)
  show "appPromiseIsResolved s \<longrightarrow>
        gates (gate_compile s) = gates s @ [False] \<and>
        appPromise (gate_compile s) = Some (length (gates s)) \<and>
        \<not> appPromiseIsResolved (gate_compile s)"
    by (simp add: gate_compile_def)
  show "length (filter (\<lambda>b. \<not> b) (gates (run es (init now hot)))) \<le> 1"
    by (intro unresolved_gates_le_1 gate_inv_run gate_inv_init)
qed

theorem gate_compile_coalesces_witness:
  "\<not> appPromiseIsResolved (run [ServerCompile 0] (init 0 True))
   \<and> gate_compile (run [ServerCompile 0] (init 0 True)) = run [ServerCompile 0] (init 0 True)
   \<and> gates (run [ServerCompile 0, ServerCompile 1, ServerCompile 2] (init 0 True)) = [False]
   \<and> appPromiseIsResolved (run boot (init 0 True))
   \<and> gates (gate_compile (run boot (init 0 True))) = [True, False]
   \<and> length (filter (\<lambda>b. \<not> b) (gates (run rebuilt (init 0 True)))) \<le> 1"
proof -
  have u: "\<not> appPromiseIsResolved (run [ServerCompile 0] (init 0 True))"
    by (simp add: model_defs)
  have r: "appPromiseIsResolved (run boot (init 0 True))"
    by (simp add: sample_defs model_defs)
  have g: "gates (run boot (init 0 True)) = [True]"
    by (simp add: sample_defs model_defs)
  have t: "gates (run [ServerCompile 0, ServerCompile 1, ServerCompile 2] (init 0 True)) = [False]"
    by (simp add: model_defs)
  show ?thesis
    using u r g t
      gate_compile_coalesces [of "run [ServerCompile 0] (init 0 True)" 1 rebuilt 0 True]
      gate_compile_coalesces [of "run boot (init 0 True)" 1 rebuilt 0 True]
    by simp
qed

section \<open>Cleanup and the loading of the module\<close>





lemma is_rejected_not_Pending: "is_rejected p \<Longrightarrow> p \<noteq> Pending"
  by (cases p) simp_all






section \<open>Failures of the patch check\<close>


lemma catch_handler_returns:
  "app s = Some a \<Longrightarrow> hot_of s a = Some status \<Longrightarrow> fst (catch_handler err s) = None"
  by (simp add: catch_handler_def Let_def case_prod_beta)




text \<open>
  C6, as the code has it. When the loaded module has no hot interface,
  \<open>checkForUpdate\<close> throws its error before any check is requested; a failed patch
  attempt is something else, a rejection that the catch handler of the check takes and
  returns from normally. The throw happens in the watch callback of a rebuild, after
  the module was loaded: it leaves the callback, and nothing else of the state changes
  in that turn beyond the done hook, so no cleanup is started, start stays where it
  is and the gate is not released.
\<close>

theorem checkForUpdate_without_hot:
  assumes "app s = Some a" and "hot_of s a = None" and "\<not> hasErrors st"
  shows "checkForUpdate fromUpd s =
           Inl (Error (hmrPrefix @ ''Hot Module Replacement is disabled.''))
    \<and> watch_callback None (Some st) s =
         throw (Error (hmrPrefix @ ''Hot Module Replacement is disabled.'')) s
    \<and> (phase s \<noteq> AwaitClient \<and> phase s \<noteq> AwaitServer \<longrightarrow>
         step (ServerDone now st) s =
           throw (Error (hmrPrefix @ ''Hot Module Replacement is disabled.''))
             (server_tap (done_tap ''server'' now st (serverC s)) s))
    \<and> (\<forall>s' a' status. app s' = Some a' \<and> hot_of s' a' = Some status \<longrightarrow>
          fst (catch_handler err s') = None)"
proof (intro conjI impI allI)
  show c: "checkForUpdate fromUpd s =
           Inl (Error (hmrPrefix @ ''Hot Module Replacement is disabled.''))" for fromUpd
    using assms by (simp add: checkForUpdate_def)
  show w: "watch_callback None (Some st) s =
         throw (Error (hmrPrefix @ ''Hot Module Replacement is disabled.'')) s"
    using assms c [of False] by (simp add: watch_callback_def)
  show "step (ServerDone now st) s =
           throw (Error (hmrPrefix @ ''Hot Module Replacement is disabled.''))
             (server_tap (done_tap ''server'' now st (serverC s)) s)"
    if "phase s \<noteq> AwaitClient \<and> phase s \<noteq> AwaitServer"
  proof -
    let ?s1 = "server_tap (done_tap ''server'' now st (serverC s)) s"
    have "app ?s1 = Some a" "hot_of ?s1 a = None" "phase ?s1 = phase s"
      using assms by (simp_all add: server_tap_def say_def hot_of_def split: if_splits)
    then show ?thesis
      using that assms(3)
      by (simp add: watch_callback_def checkForUpdate_def resume_later throw_def)
  qed
  show "fst (catch_handler err s') = None"
    if "app s' = Some a' \<and> hot_of s' a' = Some status" for s' a' status
    using that catch_handler_returns by blast
qed

theorem checkForUpdate_without_hot_witness:
  "app (run boot (init 0 False)) = Some 0
   \<and> hot_of (run boot (init 0 False)) 0 = None
   \<and> \<not> hasErrors stats_ok
   \<and> checkForUpdate False (run boot (init 0 False)) =
       Inl (Error (hmrPrefix @ ''Hot Module Replacement is disabled.''))
   \<and> phase (run boot (init 0 False)) = Launched
   \<and> cleaning (step (ServerDone 110 stats_ok) (run boot (init 0 False))) = None
   \<and> app (run rebuilt (init 0 True)) = Some 0
   \<and> hot_of (run rebuilt (init 0 True)) 0 = Some ''check''
   \<and> fst (catch_handler (Error ''x'') (run rebuilt (init 0 True))) = None"
proof -
  let ?s = "run boot (init 0 False)"
  let ?t = "run rebuilt (init 0 True)"
  have s: "app ?s = Some 0" "hot_of ?s 0 = None" "\<not> hasErrors stats_ok"
    by (simp_all add: sample_defs model_defs)
  have p: "phase ?s = Launched" "cleaning ?s = None"
    by (simp_all add: sample_defs model_defs)
  have t: "app ?t = Some 0" "hot_of ?t 0 = Some ''check''"
    by (simp_all add: sample_defs model_defs)
  show ?thesis
    using s p t checkForUpdate_without_hot [OF s, of False 110 "Error ''x''"]
    by (simp add: throw_def server_tap_def say_def)
qed

theorem hot_disabled_counterexample:
  "app (run boot (init 0 False)) = Some 0
   \<and> hot_of (run boot (init 0 False)) 0 = None
   \<and> uncaught (run rebuilt (init 0 False)) =
       [Error (hmrPrefix @ ''Hot Module Replacement is disabled.'')]
   \<and> cleaning (run rebuilt (init 0 False)) = None
   \<and> teardowns (run rebuilt (init 0 False)) = 0
   \<and> phase (run rebuilt (init 0 False)) = Launched
   \<and> \<not> appPromiseIsResolved (run rebuilt (init 0 False))"
  by (simp add: sample_defs model_defs)

section \<open>The nested check\<close>

lemma check_inv_pending:
  assumes "check_inv s" and "checks s = c # cs"
  shows "cs = [] \<and> app s = Some (onInstance c) \<and> onInstance c < length (instances s) \<and>
         cache s = Some (onInstance c)"
  using assms by (auto simp: check_inv_def split: option.splits)

lemma release_reaction_fields:
  "app s \<noteq> None \<Longrightarrow> console (release_reaction s) = console s"
  "hotChecks (release_reaction s) = hotChecks s"
  "checks (release_reaction s) = checks s"
  "instances (release_reaction s) = instances s"
  by (auto simp: release_reaction_def release_def resolve_gate_def handle_all_eq throw_def say_def
                 Let_def
           split: option.splits)

lemma updated_settled:
  assumes "check_inv s" and "checks s = c # cs" and "ms \<noteq> []"
  shows "console (check_settled (Updated (Some ms)) ''idle'' s) =
           console s @ Info (hmrPrefix @ ''Updated modules:'') #
             map (\<lambda>moduleId. Info (hmrPrefix @ '' - '' @ moduleId)) ms"
    and "checks (check_settled (Updated (Some ms)) ''idle'' s) =
           [\<lparr>fromUpdate = True, onInstance = onInstance c, thenRelease = False\<rparr>]"
    and "hotChecks (check_settled (Updated (Some ms)) ''idle'' s) = Suc (hotChecks s)"
    and "app (check_settled (Updated (Some ms)) ''idle'' s) = app s"
proof -
  let ?a = "onInstance c"
  from check_inv_pending [OF assms(1,2)]
  have f: "cs = []" "app s = Some ?a" "?a < length (instances s)" by simp_all
  let ?s2 = "s\<lparr>console := console s @ Info (hmrPrefix @ ''Updated modules:'') #
                 map (\<lambda>moduleId. Info (hmrPrefix @ '' - '' @ moduleId)) ms,
               instances := (instances s)[?a := Some ''check''],
               hotChecks := Suc (hotChecks s),
               checks := [\<lparr>fromUpdate = True, onInstance = ?a, thenRelease = False\<rparr>]\<rparr>"
  have "check_settled (Updated (Some ms)) ''idle'' s =
          (if thenRelease c then release_reaction ?s2 else ?s2)"
    using assms(2,3) f
    by (simp add: check_settled_def then_handler_def checkForUpdate_def hot_of_def say_def Let_def)
  moreover have "app ?s2 \<noteq> None" using f by simp
  ultimately show
    "console (check_settled (Updated (Some ms)) ''idle'' s) =
           console s @ Info (hmrPrefix @ ''Updated modules:'') #
             map (\<lambda>moduleId. Info (hmrPrefix @ '' - '' @ moduleId)) ms"
    "checks (check_settled (Updated (Some ms)) ''idle'' s) =
           [\<lparr>fromUpdate = True, onInstance = onInstance c, thenRelease = False\<rparr>]"
    "hotChecks (check_settled (Updated (Some ms)) ''idle'' s) = Suc (hotChecks s)"
    "app (check_settled (Updated (Some ms)) ''idle'' s) = app s"
    by (simp_all add: release_reaction_fields)
qed

lemma nothing_settled:
  assumes "check_inv s" and "checks s = c # cs" and "um = None \<or> um = Some []"
  shows "checks (check_settled (Updated um) ''idle'' s) = []"
    and "hot_of (check_settled (Updated um) ''idle'' s) (onInstance c) = Some ''idle''"
    and "console (check_settled (Updated um) ''idle'' s) =
           console s @
             (if um = Some [] then [Info (hmrPrefix @ ''Nothing hot updated.'')]
              else if fromUpdate c then [Info (hmrPrefix @ ''Update applied.'')] else [])"
proof -
  let ?a = "onInstance c"
  from check_inv_pending [OF assms(1,2)]
  have f: "cs = []" "app s = Some ?a" "?a < length (instances s)" by simp_all
  let ?s1 = "s\<lparr>checks := [], instances := (instances s)[?a := Some ''idle''],
               console := console s @
                 (if um = Some [] then [Info (hmrPrefix @ ''Nothing hot updated.'')]
                  else if fromUpdate c then [Info (hmrPrefix @ ''Update applied.'')] else [])\<rparr>"
  have "check_settled (Updated um) ''idle'' s =
          (if thenRelease c then release_reaction ?s1 else ?s1)"
    using assms(2,3) f
    by (auto simp: check_settled_def then_handler_def say_def Let_def)
  moreover have "app ?s1 \<noteq> None" using f by simp
  ultimately show "checks (check_settled (Updated um) ''idle'' s) = []"
    "hot_of (check_settled (Updated um) ''idle'' s) (onInstance c) = Some ''idle''"
    "console (check_settled (Updated um) ''idle'' s) =
           console s @
             (if um = Some [] then [Info (hmrPrefix @ ''Nothing hot updated.'')]
              else if fromUpdate c then [Info (hmrPrefix @ ''Update applied.'')] else [])"
    using f by (simp_all add: release_reaction_fields hot_of_def)
qed

text \<open>
  C9. When the pending check of a reachable state yields a non-empty list of updated
  modules (the hot interface being idle again), the turn prints the heading and one
  line for each module and calls \<open>checkForUpdate(true)\<close>, which requests the nested
  check. When that one yields nothing (null or an empty list), no check is pending
  and the hot interface is idle. In the scenario of moduleA the lines printed after
  the rebuild are the heading, the line of moduleA and the line that nothing was
  updated.
\<close>

theorem nested_check_drains:
  assumes "checks (run es (init now hot)) = c # cs" and "ms \<noteq> []"
    and "um = None \<or> um = Some []"
  shows "console (step (HotCheckSettled (Updated (Some ms)) ''idle'') (run es (init now hot))) =
           console (run es (init now hot)) @ Info (hmrPrefix @ ''Updated modules:'') #
             map (\<lambda>moduleId. Info (hmrPrefix @ '' - '' @ moduleId)) ms
    \<and> checks (step (HotCheckSettled (Updated (Some ms)) ''idle'') (run es (init now hot))) =
           [\<lparr>fromUpdate = True, onInstance = onInstance c, thenRelease = False\<rparr>]
    \<and> hotChecks (step (HotCheckSettled (Updated (Some ms)) ''idle'') (run es (init now hot))) =
           Suc (hotChecks (run es (init now hot)))
    \<and> checks (run [HotCheckSettled (Updated (Some ms)) ''idle'', HotCheckSettled (Updated um) ''idle'']
                (run es (init now hot))) = []
    \<and> hot_of (run [HotCheckSettled (Updated (Some ms)) ''idle'', HotCheckSettled (Updated um) ''idle'']
                (run es (init now hot))) (onInstance c) = Some ''idle''
    \<and> console (run [HotCheckSettled (Updated (Some ms)) ''idle'', HotCheckSettled (Updated um) ''idle'']
                (run es (init now hot))) =
           console (run es (init now hot)) @ Info (hmrPrefix @ ''Updated modules:'') #
             map (\<lambda>moduleId. Info (hmrPrefix @ '' - '' @ moduleId)) ms @
             [Info (hmrPrefix @ (if um = Some [] then ''Nothing hot updated.'' else ''Update applied.''))]
    \<and> console (run moduleA_updated (init 0 True)) =
           console (run rebuilt (init 0 True)) @
             [Info (hmrPrefix @ ''Updated modules:''), Info (hmrPrefix @ '' - moduleA''),
              Info (hmrPrefix @ ''Nothing hot updated.'')]
    \<and> checks (run moduleA_updated (init 0 True)) = []
    \<and> hot_of (run moduleA_updated (init 0 True)) 0 = Some ''idle''"
proof -
  let ?s = "run es (init now hot)"
  let ?s1 = "check_settled (Updated (Some ms)) ''idle'' ?s"
  let ?c' = "\<lparr>fromUpdate = True, onInstance = onInstance c, thenRelease = False\<rparr>"
  have inv: "check_inv ?s" by (intro check_inv_run check_inv_init)
  note first = updated_settled [OF inv assms(1,2)]
  have inv1: "check_inv ?s1" using inv by (rule check_inv_check_settled)
  have pending: "checks ?s1 = ?c' # []" using first(2) by simp
  note second = nothing_settled [OF inv1 pending assms(3)]
  have scenario:
    "console (run moduleA_updated (init 0 True)) =
           console (run rebuilt (init 0 True)) @
             [Info (hmrPrefix @ ''Updated modules:''), Info (hmrPrefix @ '' - moduleA''),
              Info (hmrPrefix @ ''Nothing hot updated.'')]"
    "checks (run moduleA_updated (init 0 True)) = []"
    "hot_of (run moduleA_updated (init 0 True)) 0 = Some ''idle''"
    by (simp_all add: moduleA_updated_def sample_defs model_defs)
  from first second scenario show ?thesis by simp
qed

theorem nested_check_drains_witness:
  "checks (run rebuilt (init 0 True)) =
     \<lparr>fromUpdate = False, onInstance = 0, thenRelease = True\<rparr> # []
   \<and> [''moduleA''] \<noteq> []
   \<and> checks (step (HotCheckSettled (Updated (Some [''moduleA''])) ''idle'')
        (run rebuilt (init 0 True))) =
       [\<lparr>fromUpdate = True, onInstance = 0, thenRelease = False\<rparr>]
   \<and> checks (run [HotCheckSettled (Updated (Some [''moduleA''])) ''idle'',
                  HotCheckSettled (Updated (Some [])) ''idle'']
        (run rebuilt (init 0 True))) = []
   \<and> hot_of (run [HotCheckSettled (Updated (Some [''moduleA''])) ''idle'',
                  HotCheckSettled (Updated (Some [])) ''idle'']
        (run rebuilt (init 0 True))) 0 = Some ''idle''"
proof -
  have p: "checks (run rebuilt (init 0 True)) =
     \<lparr>fromUpdate = False, onInstance = 0, thenRelease = True\<rparr> # []"
    by (simp add: sample_defs model_defs)
  have m: "[''moduleA''] \<noteq> []" by simp
  have u: "Some [] = None \<or> Some [] = Some ([] :: moduleId list)" by simp
  show ?thesis
    using p m nested_check_drains [OF p m u] by simp
qed

section \<open>The release after a patch check\<close>


lemma handled_then_handler [simp]: "handled (snd (then_handler f um s)) = handled s"
  by (auto simp: then_handler_def checkForUpdate_def say_def Let_def
           split: option.splits sum.splits if_splits)

lemma handled_catch_handler [simp]: "handled (snd (catch_handler e s)) = handled s"
  by (simp add: catch_handler_def require_server_def say_def Let_def case_prod_beta
           split: option.splits)










section \<open>The gate and the rebuilds\<close>

lemma flag_alt: "appPromiseIsResolved s = fst (snd (snd (gate_view s)))"
  by (simp add: gate_view_def)

lemma flag_middleware [simp]: "appPromiseIsResolved (middleware r s) = appPromiseIsResolved s"
  by (simp add: middleware_def handle_def say_def throw_def split: option.splits)

lemma flag_watch_callback_quiet:
  assumes "hasErrors st \<or> (case app s of None \<Rightarrow> True
             | Some a \<Rightarrow> (case hot_of s a of None \<Rightarrow> True | Some status \<Rightarrow> status = ''idle''))"
  shows "appPromiseIsResolved (watch_callback None (Some st) s) = appPromiseIsResolved s"
proof (cases "hasErrors st \<or> app s = None")
  case True
  then show ?thesis by (auto simp: watch_callback_def)
next
  case False
  then obtain a where a: "app s = Some a" "\<not> hasErrors st" by auto
  show ?thesis
  proof (cases "hot_of s a")
    case None
    with a show ?thesis by (simp add: watch_callback_def checkForUpdate_def throw_def)
  next
    case (Some status)
    with a assms have "status = ''idle''" by simp
    with a Some show ?thesis
      by (simp add: watch_callback_def checkForUpdate_def then_release_def)
  qed
qed

lemma flag_check_settled_quiet:
  assumes "case checks s of [] \<Rightarrow> True | c # cs \<Rightarrow> \<not> thenRelease c"
  shows "appPromiseIsResolved (check_settled out status s) = appPromiseIsResolved s"
proof (cases "checks s")
  case Nil
  then show ?thesis by (simp add: check_settled_def)
next
  case (Cons c cs)
  with assms have "\<not> thenRelease c" by simp
  with Cons show ?thesis
    by (simp add: check_settled_def Let_def case_prod_beta
             split: option.splits check_outcome.splits)
       (simp add: flag_alt)
qed

lemma released_only_by:
  assumes "\<not> may_release e s" and "\<not> appPromiseIsResolved s"
  shows "\<not> appPromiseIsResolved (step e s)"
proof (cases e)
  case (ClientCompile now)
  with assms show ?thesis by (simp add: flag_alt)
next
  case (ClientDone now st)
  with assms have "phase s \<noteq> AwaitClient" "phase s \<noteq> AwaitServer" by simp_all
  with ClientDone assms(2) show ?thesis
    by (simp add: resume_later client_tap_fields) (simp add: flag_alt)
next
  case (ServerCompile now)
  with assms show ?thesis by (simp add: gate_compile_def flag_alt)
next
  case (ServerDone now st)
  let ?s1 = "server_tap (done_tap ''server'' now st (serverC s)) s"
  from ServerDone assms have ph: "phase s \<noteq> AwaitClient" "phase s \<noteq> AwaitServer"
    and q: "hasErrors st \<or> (case app s of None \<Rightarrow> True
             | Some a \<Rightarrow> (case hot_of s a of None \<Rightarrow> True | Some status \<Rightarrow> status = ''idle''))"
    by (auto split: option.splits)
  have "app ?s1 = app s" "hot_of ?s1 = hot_of s"
    by (simp_all add: server_tap_def say_def hot_of_def fun_eq_iff)
  with q have "appPromiseIsResolved (watch_callback None (Some st) ?s1) = appPromiseIsResolved ?s1"
    by (intro flag_watch_callback_quiet) (simp split: option.splits)
  also have "\<dots> = appPromiseIsResolved s" by (simp add: flag_alt)
  finally show ?thesis
    using ServerDone ph assms(2)
    by (simp add: resume_later watch_callback_fields server_tap_fields)
next
  case (ServerWatchError x)
  with assms show ?thesis by (simp add: watch_callback_def)
next
  case (Request r)
  with assms show ?thesis by simp
next
  case (HotCheckSettled out status)
  with assms have "case checks s of [] \<Rightarrow> True | c # cs \<Rightarrow> \<not> thenRelease c"
    by (simp split: list.splits)
  then have "appPromiseIsResolved (check_settled out status s) = appPromiseIsResolved s"
    by (rule flag_check_settled_quiet)
  with HotCheckSettled assms(2) show ?thesis by simp
next
  case (BrowserSyncInit now err)
  with assms show ?thesis by (simp add: flag_alt)
next
  case KillSignal
  with assms show ?thesis by (simp add: flag_alt)
next
  case (TeardownSettled r)
  with assms show ?thesis by (simp add: flag_alt)
qed

lemma gate_inv_mirror:
  assumes "gate_inv s"
  shows "appPromiseIsResolved s =
           (case appPromise s of None \<Rightarrow> True | Some g \<Rightarrow> gate_resolved s g)"
proof (cases "appPromise s")
  case None
  with assms show ?thesis by (simp add: gate_inv_def)
next
  case (Some g)
  with assms have "gates s = replicate g True @ [appPromiseIsResolved s]"
    by (simp add: gate_inv_def)
  with Some show ?thesis by (simp add: gate_resolved_def nth_append)
qed

lemma gate_inv_waiting:
  assumes "gate_inv s"
  shows "(waiting s \<noteq> [] \<longrightarrow> \<not> appPromiseIsResolved s) \<and>
         list_all (\<lambda>w. appPromise s = Some (fst w)) (waiting s)"
proof (cases "appPromise s")
  case None
  with assms show ?thesis by (simp add: gate_inv_def)
next
  case (Some g)
  with assms show ?thesis by (auto simp: gate_inv_def list_all_iff)
qed

lemma request_held_or_handled:
  assumes "gate_inv s"
  shows "(\<not> appPromiseIsResolved s \<longrightarrow>
            handled (middleware r s) = handled s \<and>
            (\<exists>g. appPromise s = Some g \<and> waiting (middleware r s) = waiting s @ [(g, r)]))
       \<and> (appPromiseIsResolved s \<and> appPromise s \<noteq> None \<and> app s = Some a \<longrightarrow>
            handled (middleware r s) = handled s @ [(r, a)])"
proof (cases "appPromise s")
  case None
  with assms show ?thesis by (simp add: gate_inv_def)
next
  case (Some g)
  with gate_inv_mirror [OF assms] have "gate_resolved s g = appPromiseIsResolved s" by simp
  with Some show ?thesis by (simp add: middleware_def handle_def)
qed

text \<open>
  C1, as the code has it. In every reachable state the flag \<open>appPromiseIsResolved\<close>
  says exactly whether the promise in \<open>appPromise\<close> is resolved, and a request
  waits only while the gate is unresolved, on the current promise. After a
  compile-start of the server compiler the gate is unresolved (the existing promise is
  kept when it was unresolved already). An unresolved gate is released only by a done
  hook that lets start load the module, by the watch callback of a rebuild without
  errors while the hot interface of the loaded module is not idle (no check is made
  then), or by the settling of a check the watch callback chained its release on. A
  request that comes while the gate is unresolved is held; one that comes while it is
  resolved is handed at once to the module \<open>app\<close> holds.
\<close>

theorem gate_follows_flag:
  "appPromiseIsResolved (run es (init now hot)) =
     (case appPromise (run es (init now hot)) of
        None \<Rightarrow> True
      | Some g \<Rightarrow> gate_resolved (run es (init now hot)) g)
   \<and> (waiting (run es (init now hot)) \<noteq> [] \<longrightarrow> \<not> appPromiseIsResolved (run es (init now hot)))
   \<and> list_all (\<lambda>w. appPromise (run es (init now hot)) = Some (fst w))
        (waiting (run es (init now hot)))
   \<and> \<not> appPromiseIsResolved (step (ServerCompile now') (run es (init now hot)))
   \<and> (\<not> appPromiseIsResolved (run es (init now hot)) \<and>
       appPromiseIsResolved (step e (run es (init now hot))) \<longrightarrow>
         may_release e (run es (init now hot)))
   \<and> (\<not> appPromiseIsResolved (run es (init now hot)) \<longrightarrow>
         handled (step (Request r) (run es (init now hot))) = handled (run es (init now hot)) \<and>
         (\<exists>g. appPromise (run es (init now hot)) = Some g \<and>
              waiting (step (Request r) (run es (init now hot))) =
                waiting (run es (init now hot)) @ [(g, r)]))
   \<and> (appPromiseIsResolved (run es (init now hot)) \<and> appPromise (run es (init now hot)) \<noteq> None \<and>
       app (run es (init now hot)) = Some a \<longrightarrow>
         handled (step (Request r) (run es (init now hot))) =
           handled (run es (init now hot)) @ [(r, a)])"
proof -
  let ?s = "run es (init now hot)"
  have g: "gate_inv ?s" by (intro gate_inv_run gate_inv_init)
  have armed: "\<not> appPromiseIsResolved (step (ServerCompile now') ?s)"
    by (simp add: gate_compile_def server_tap_def say_def)
  have only: "\<not> appPromiseIsResolved ?s \<and> appPromiseIsResolved (step e ?s) \<longrightarrow> may_release e ?s"
    using released_only_by [of e ?s] by blast
  from gate_inv_mirror [OF g] gate_inv_waiting [OF g] armed only
    request_held_or_handled [OF g, of r a]
  show ?thesis by (simp only: step.simps) blast
qed

theorem gate_follows_flag_witness:
  "waiting (run (rebuilt @ [Request 7]) (init 0 True)) \<noteq> []
   \<and> \<not> appPromiseIsResolved (run (rebuilt @ [Request 7]) (init 0 True))
   \<and> appPromiseIsResolved (step (HotCheckSettled (Updated None) ''idle'')
        (run (rebuilt @ [Request 7]) (init 0 True)))
   \<and> may_release (HotCheckSettled (Updated None) ''idle'')
        (run (rebuilt @ [Request 7]) (init 0 True))
   \<and> handled (step (Request 8) (run (rebuilt @ [Request 7]) (init 0 True))) = []
   \<and> appPromiseIsResolved (run boot (init 0 True))
   \<and> appPromise (run boot (init 0 True)) \<noteq> None
   \<and> app (run boot (init 0 True)) = Some 0
   \<and> handled (step (Request 8) (run boot (init 0 True))) = [(8, 0)]"
proof -
  let ?t = "run (rebuilt @ [Request 7]) (init 0 True)"
  have t: "waiting ?t \<noteq> []" "\<not> appPromiseIsResolved ?t" "handled ?t = []"
    "appPromiseIsResolved (step (HotCheckSettled (Updated None) ''idle'') ?t)"
    by (simp_all add: sample_defs model_defs)
  have b: "appPromiseIsResolved (run boot (init 0 True))"
    "appPromise (run boot (init 0 True)) \<noteq> None" "app (run boot (init 0 True)) = Some 0"
    "handled (run boot (init 0 True)) = []"
    by (simp_all add: sample_defs model_defs)
  have first: "may_release (HotCheckSettled (Updated None) ''idle'') ?t
     \<and> handled (step (Request 8) ?t) = []"
    using t gate_follows_flag
        [where es = "rebuilt @ [Request 7]" and now = 0 and hot = True
           and e = "HotCheckSettled (Updated None) ''idle''" and r = 8]
    by simp
  have second: "handled (step (Request 8) (run boot (init 0 True))) = [(8, 0)]"
    using b gate_follows_flag [where es = boot and now = 0 and hot = True and r = 8 and a = 0]
    by simp
  from t b first second show ?thesis by simp
qed

theorem gate_resolved_too_early_counterexample:
  "rebuild_outstanding late_release False
   \<and> appPromiseIsResolved (run late_release (init 0 True))
   \<and> app (run boot (init 0 True)) = Some 0
   \<and> appPromiseIsResolved (run stale_dispatch (init 0 True))
   \<and> handled (run stale_dispatch (init 0 True)) = [(1, 0)]
   \<and> hotChecks (run stale_dispatch (init 0 True)) = 1
   \<and> checks (run stale_dispatch (init 0 True)) =
       [\<lparr>fromUpdate = False, onInstance = 0, thenRelease = True\<rparr>]"
  by (simp add: late_release_def stale_dispatch_def sample_defs model_defs)

end
